theory Spec2Isabelle
  imports Complex_Main "HOL-Library.Monad_Syntax"
begin

section \<open>Values, strings and the libraries the code calls\<close>

text \<open>
  The repository is Python.  A Python \<open>str\<close> is a sequence of Unicode code points, so a
  string is a list of code points (\<open>ord\<close> of each character), not a list of bytes.
  \<open>ustr\<close> turns an ASCII literal into such a string.
\<close>

type_synonym ustring = "nat list"

definition ustr :: "string \<Rightarrow> ustring" where
  "ustr s = map of_char s"

text \<open>
  The raw records come from \<open>json.load\<close> / \<open>json.loads\<close> (\<open>_iter_docs\<close>), so the values the
  row transformer sees are JSON values: \<open>None\<close>, booleans, integers, floats, strings, lists
  and dictionaries with string keys.  A dictionary is an association list, because
  \<open>dict.items()\<close> enumerates it in insertion order.  A float carries its exact value:
  rounding, infinities and NaN are outside the model.
\<close>

datatype pyval =
    PNone
  | PBool bool
  | PInt int
  | PFloat real
  | PStr ustring
  | PList "pyval list"
  | PDict "(ustring \<times> pyval) list"

text \<open>The exceptions that occur: an exception is a value, \<open>Inl\<close> of a sum.\<close>

datatype error = TypeError | ValueError | OverflowError | RecursionError

text \<open>
  The code calls into \<open>unicodedata\<close>, \<open>re\<close>, the \<open>str\<close> methods and NLTK.  None of these is
  part of the repository, so what they contribute is a parameter of the model:

  \<^item> \<open>nfkc\<close>: \<open>unicodedata.normalize("NFKC", s)\<close>;
  \<^item> \<open>str_lower\<close>: \<open>s.lower()\<close>;
  \<^item> \<open>isspace\<close>: the whitespace class of one character, used by \<open>\s\<close> in a \<open>str\<close> pattern and
    by \<open>str.split()\<close> and \<open>str.strip()\<close>;
  \<^item> \<open>isword\<close>: the class \<open>\w\<close> of a \<open>str\<close> pattern;
  \<^item> \<open>decimal\<close>: \<open>unicodedata.decimal(c)\<close>, \<open>None\<close> when \<open>c\<close> is not a decimal digit; the class
    \<open>\d\<close> of a \<open>str\<close> pattern is its domain;
  \<^item> \<open>isdigit\<close>: \<open>c.isdigit()\<close> for one character;
  \<^item> \<open>stem\<close>: \<open>_STEM.stem\<close>, the stemmer object of \<open>text_tokenize.py\<close>; the code calls it
    outside any \<open>try\<close>, so it returns a stem or raises;
  \<^item> \<open>STOP\<close>: \<open>_STOP\<close>, the stopword set of \<open>text_tokenize.py\<close>.
\<close>

record lib =
  nfkc :: "ustring \<Rightarrow> ustring"
  str_lower :: "ustring \<Rightarrow> ustring"
  isspace :: "nat \<Rightarrow> bool"
  isword :: "nat \<Rightarrow> bool"
  decimal :: "nat \<Rightarrow> nat option"
  isdigit :: "nat \<Rightarrow> bool"
  stem :: "ustring \<Rightarrow> error + ustring"
  STOP :: "ustring set"

text \<open>
  Two builtins are modelled only as far as the code's own strings need them; the rest
  of each is a parameter as well:

  \<^item> \<open>float_other\<close>: \<open>float(s)\<close> on a string that is not a plain decimal literal
    (digits, or digits, a point and digits);
  \<^item> \<open>str_other\<close>: \<open>str(v)\<close> for a float, a list or a dictionary.
\<close>

record interp =
  float_other :: "ustring \<Rightarrow> error + real"
  str_other :: "pyval \<Rightarrow> ustring"

subsection \<open>String operations of the interpreter\<close>

text \<open>
  \<open>re.sub(r"[C]+", " ", s)\<close> for a character class \<open>C\<close>: every maximal run of characters
  of the class is replaced by one space (code point 32).
\<close>

function re_sub_runs :: "(nat \<Rightarrow> bool) \<Rightarrow> ustring \<Rightarrow> ustring" where
  "re_sub_runs p [] = []"
| "re_sub_runs p (c # cs) =
     (if p c then 32 # re_sub_runs p (dropWhile p cs) else c # re_sub_runs p cs)"
  by pat_completeness auto
termination
  by (relation "measure (\<lambda>(p, s). length s)")
     (auto simp: less_Suc_eq_le length_dropWhile_le)

text \<open>\<open>s.strip()\<close>: leading and trailing whitespace removed.\<close>

definition str_strip :: "lib \<Rightarrow> ustring \<Rightarrow> ustring" where
  "str_strip L s = rev (dropWhile (isspace L) (rev (dropWhile (isspace L) s)))"

text \<open>\<open>s.split()\<close>: the maximal runs of non-whitespace characters, in order.\<close>

function str_split :: "lib \<Rightarrow> ustring \<Rightarrow> ustring list" where
  "str_split L [] = []"
| "str_split L (c # cs) =
     (if isspace L c then str_split L cs
      else (c # takeWhile (\<lambda>x. \<not> isspace L x) cs)
             # str_split L (dropWhile (\<lambda>x. \<not> isspace L x) cs))"
  by pat_completeness auto
termination
  by (relation "measure (\<lambda>(L, s). length s)")
     (auto simp: less_Suc_eq_le length_dropWhile_le)

text \<open>\<open>t.isdigit()\<close>: the string is not empty and every character is a digit.\<close>

definition str_isdigit :: "lib \<Rightarrow> ustring \<Rightarrow> bool" where
  "str_isdigit L t = (t \<noteq> [] \<and> list_all (isdigit L) t)"

text \<open>\<open>str(i)\<close> for an integer: its decimal digits, with a minus sign when negative.\<close>

function digits_nat :: "nat \<Rightarrow> ustring" where
  "digits_nat n = (if n < 10 then [48 + n] else digits_nat (n div 10) @ [48 + n mod 10])"
  by pat_completeness auto
termination
  by (relation "measure id") auto

declare digits_nat.simps [simp del]

definition str_int :: "int \<Rightarrow> ustring" where
  "str_int i = (if i < 0 then 45 # digits_nat (nat (- i)) else digits_nat (nat i))"

text \<open>
  \<open>str(v)\<close>.  It returns for every value that \<open>json.load\<close> yields.  An interpreter that
  limits the conversion between integers and decimal strings (4300 digits by default,
  from Python 3.11 on) limits it in both directions, so \<open>json.load\<close> cannot yield an integer
  that \<open>str\<close> would refuse.
\<close>

fun py_str :: "interp \<Rightarrow> pyval \<Rightarrow> ustring" where
  "py_str I (PStr s) = s"
| "py_str I PNone = ustr ''None''"
| "py_str I (PBool b) = (if b then ustr ''True'' else ustr ''False'')"
| "py_str I (PInt i) = str_int i"
| "py_str I v = str_other I v"

text \<open>\<open>bool(v)\<close>: Python truthiness.\<close>

fun py_bool :: "pyval \<Rightarrow> bool" where
  "py_bool PNone = False"
| "py_bool (PBool b) = b"
| "py_bool (PInt i) = (i \<noteq> 0)"
| "py_bool (PFloat r) = (r \<noteq> 0)"
| "py_bool (PStr s) = (s \<noteq> [])"
| "py_bool (PList vs) = (vs \<noteq> [])"
| "py_bool (PDict kvs) = (kvs \<noteq> [])"

text \<open>\<open>isinstance(v, str)\<close>, \<open>d.get(key, default)\<close>.\<close>

fun is_str :: "pyval \<Rightarrow> bool" where
  "is_str (PStr s) = True"
| "is_str v = False"

definition get :: "(ustring \<times> pyval) list \<Rightarrow> ustring \<Rightarrow> pyval \<Rightarrow> pyval" where
  "get d key dflt = (case map_of d key of Some v \<Rightarrow> v | None \<Rightarrow> dflt)"

subsection \<open>The number pattern and \<open>float\<close>\<close>

text \<open>
  Both parsers use the pattern \<open>\d+(?:\.\d+)?\<close>.  \<open>match_number\<close> is one attempt of the matcher
  at the start of \<open>s\<close>: the longest digit run, then, when a point and at least one digit
  follow, the point and the longest digit run after it.  It returns the match and the
  rest of the string.  Starting with a greedy \<open>\d+\<close> the pattern matches wherever a digit
  stands, so the matcher never has to give digits back.
\<close>

definition isdec :: "lib \<Rightarrow> nat \<Rightarrow> bool" where
  "isdec L c = (decimal L c \<noteq> None)"

definition match_number :: "lib \<Rightarrow> ustring \<Rightarrow> (ustring \<times> ustring) option" where
  "match_number L s =
     (let ip = takeWhile (isdec L) s; r = dropWhile (isdec L) s
      in if ip = [] then None
         else case r of
             [] \<Rightarrow> Some (ip, [])
           | c # fr \<Rightarrow>
               if c = 46 \<and> takeWhile (isdec L) fr \<noteq> []
               then Some (ip @ 46 # takeWhile (isdec L) fr, dropWhile (isdec L) fr)
               else Some (ip, r))"

text \<open>\<open>re.search(pattern, s)\<close>: the match at the leftmost position that has one.\<close>

fun re_search_number :: "lib \<Rightarrow> ustring \<Rightarrow> ustring option" where
  "re_search_number L [] = None"
| "re_search_number L (c # cs) =
     (case match_number L (c # cs) of
        Some (m, r) \<Rightarrow> Some m
      | None \<Rightarrow> re_search_number L cs)"

text \<open>\<open>re.findall(pattern, s)\<close>: all matches from left to right, none overlapping.\<close>

function re_findall_number :: "lib \<Rightarrow> ustring \<Rightarrow> ustring list" where
  "re_findall_number L [] = []"
| "re_findall_number L (c # cs) =
     (case match_number L (c # cs) of
        Some (m, r) \<Rightarrow> m # re_findall_number L r
      | None \<Rightarrow> re_findall_number L cs)"
  by pat_completeness auto
termination
proof (relation "measure (\<lambda>(L, s). length s)", goal_cases)
  case 1
  show ?case by simp
next
  case (2 L c cs)
  show ?case by simp
next
  case (3 L c cs x m r)
  have "isdec L c"
    using 3 by (auto simp: match_number_def Let_def split: if_splits)
  then have "length (dropWhile (isdec L) (c # cs)) \<le> length cs"
    using length_dropWhile_le [of "isdec L" cs] by simp
  moreover have "length r \<le> length (dropWhile (isdec L) (c # cs))"
  proof (cases "dropWhile (isdec L) (c # cs)")
    case Nil
    with 3 show ?thesis
      by (auto simp: match_number_def Let_def split: if_splits)
  next
    case (Cons d fr)
    have "length (dropWhile (isdec L) fr) \<le> length fr"
      by (rule length_dropWhile_le)
    with 3 Cons show ?thesis
      by (auto simp: match_number_def Let_def split: if_splits)
  qed
  ultimately show ?case by simp
qed

text \<open>
  \<open>float(s)\<close> on a string.  A plain decimal literal has the value of its digits (each
  digit through \<open>decimal\<close>, as the interpreter converts it); every other string is left
  to \<open>float_other\<close>, which may raise.
\<close>

definition digits_val :: "lib \<Rightarrow> ustring \<Rightarrow> nat" where
  "digits_val L ds = foldl (\<lambda>a c. 10 * a + the (decimal L c)) 0 ds"

definition float_str :: "lib \<Rightarrow> interp \<Rightarrow> ustring \<Rightarrow> error + real" where
  "float_str L I s =
     (let ip = takeWhile (isdec L) s; r = dropWhile (isdec L) s
      in if ip \<noteq> [] \<and> r = [] then Inr (real (digits_val L ip))
         else if ip \<noteq> [] \<and> hd r = 46 \<and> tl r \<noteq> [] \<and> list_all (isdec L) (tl r)
         then Inr (real (digits_val L ip)
                   + real (digits_val L (tl r)) / 10 ^ length (tl r))
         else float_other I s)"

text \<open>
  \<open>float(v)\<close> on any value.  An integer converts when it rounds to a finite float, that
  is when its magnitude is below \<open>2^1024 - 2^970\<close>; from there on \<open>float\<close> raises
  \<open>OverflowError\<close>.
\<close>

fun py_float :: "lib \<Rightarrow> interp \<Rightarrow> pyval \<Rightarrow> error + real" where
  "py_float L I PNone = Inl TypeError"
| "py_float L I (PBool b) = Inr (if b then 1 else 0)"
| "py_float L I (PInt i) =
     (if 2 ^ 1024 - 2 ^ 970 \<le> \<bar>i\<bar> then Inl OverflowError else Inr (real_of_int i))"
| "py_float L I (PFloat r) = Inr r"
| "py_float L I (PStr s) = float_str L I s"
| "py_float L I (PList vs) = Inl TypeError"
| "py_float L I (PDict kvs) = Inl TypeError"

section \<open>The tokenizer (\<open>text_tokenize.py\<close>)\<close>

text \<open>
  Python names that start with an underscore cannot be Isabelle names; the underscore
  is written \<open>p_\<close>: \<open>_normalize\<close> is \<open>p_normalize\<close>, \<open>_norm\<close> is \<open>p_norm\<close>, and so on.

  \<open>_PUNCT = re.compile(r"[^\w\s]+", re.UNICODE)\<close>: the class of the pattern.
\<close>

definition PUNCT :: "lib \<Rightarrow> nat \<Rightarrow> bool" where
  "PUNCT L c = (\<not> isword L c \<and> \<not> isspace L c)"

fun p_normalize :: "lib \<Rightarrow> pyval \<Rightarrow> ustring" where
  "p_normalize L (PStr text) =
     (let s = str_lower L (nfkc L text);
          s = re_sub_runs (PUNCT L) s;
          s = str_strip L (re_sub_runs (isspace L) s)
      in s)"
| "p_normalize L v = []"

text \<open>
  A list comprehension \<open>[f(t) for t in ts]\<close> whose element expression can raise: the
  elements are computed from left to right and the first exception leaves the
  comprehension.
\<close>

fun list_comp :: "('a \<Rightarrow> error + 'b) \<Rightarrow> 'a list \<Rightarrow> error + 'b list" where
  "list_comp f [] = Inr []"
| "list_comp f (t # ts) =
     (case f t of
        Inl e \<Rightarrow> Inl e
      | Inr y \<Rightarrow> (case list_comp f ts of Inl e \<Rightarrow> Inl e | Inr ys \<Rightarrow> Inr (y # ys)))"

text \<open>
  \<open>build_terms\<close>.  Nothing catches an exception of \<open>_STEM.stem\<close>, so it leaves \<open>build_terms\<close>:
  the result is a sum.
\<close>

definition build_terms :: "lib \<Rightarrow> pyval \<Rightarrow> error + ustring list" where
  "build_terms L text =
     (let s = p_normalize L text;
          tokens = str_split L s;
          tokens = filter (\<lambda>t. t \<notin> STOP L) tokens
      in case list_comp (stem L) tokens of
           Inl e \<Rightarrow> Inl e
         | Inr tokens \<Rightarrow>
             Inr (filter (\<lambda>t. length t > 1 \<and> \<not> str_isdigit L t) tokens))"

section \<open>The record normalizer (\<open>preprocess.py\<close>)\<close>

fun p_norm :: "lib \<Rightarrow> pyval \<Rightarrow> ustring" where
  "p_norm L (PStr s) =
     (let s = str_lower L (nfkc L s);
          s = re_sub_runs (\<lambda>c. \<not> isword L c \<and> \<not> isspace L c) s;
          s = str_strip L (re_sub_runs (isspace L) s)
      in s)"
| "p_norm L v = []"

text \<open>
  \<open>_num\<close> and \<open>_disc\<close> call \<open>float\<close> outside any \<open>try\<close>, so an exception of \<open>float\<close> would leave
  the function: the result is a sum, \<open>Inl\<close> the exception.  \<open>s.replace(",", "")\<close> drops
  every comma (code point 44).
\<close>

definition p_num :: "lib \<Rightarrow> interp \<Rightarrow> pyval \<Rightarrow> error + pyval" where
  "p_num L I x =
     (if x = PNone then Inr PNone
      else let s = filter (\<lambda>c. c \<noteq> 44) (py_str I x);
               m = re_findall_number L s
           in case m of
                [] \<Rightarrow> Inr PNone
              | m0 # ms \<Rightarrow>
                  (case float_str L I m0 of
                     Inl e \<Rightarrow> Inl e
                   | Inr r \<Rightarrow> Inr (PFloat r)))"

definition p_disc :: "lib \<Rightarrow> interp \<Rightarrow> pyval \<Rightarrow> error + pyval" where
  "p_disc L I x =
     (if x = PNone then Inr PNone
      else case re_search_number L (py_str I x) of
             None \<Rightarrow> Inr PNone
           | Some g \<Rightarrow>
               (case float_str L I g of
                  Inl e \<Rightarrow> Inl e
                | Inr r \<Rightarrow> Inr (PFloat (r / 100))))"

text \<open>\<open>_rating\<close> catches every exception of \<open>float\<close>.\<close>

definition p_rating :: "lib \<Rightarrow> interp \<Rightarrow> pyval \<Rightarrow> pyval" where
  "p_rating L I x = (case py_float L I x of Inl e \<Rightarrow> PNone | Inr r \<Rightarrow> PFloat r)"

text \<open>
  \<open>_details_tokens\<close>.  The first loop is a fold over the list, each step appending to the
  list built so far, as \<open>items.extend\<close> does.  The second loop calls \<open>build_terms\<close> twice per
  pair and appends to \<open>out\<close>; an exception of \<open>build_terms\<close> leaves the loop and the function.
\<close>

definition details_items :: "pyval \<Rightarrow> (ustring \<times> pyval) list" where
  "details_items lst =
     (case lst of
        PDict kvs \<Rightarrow> kvs
      | PList ds \<Rightarrow>
          fold (\<lambda>d items. case d of PDict kvs \<Rightarrow> items @ kvs | _ \<Rightarrow> items) ds []
      | _ \<Rightarrow> [])"

fun details_loop ::
  "lib \<Rightarrow> interp \<Rightarrow> (ustring \<times> pyval) list \<Rightarrow> ustring list \<Rightarrow> error + ustring list" where
  "details_loop L I [] out = Inr out"
| "details_loop L I ((k, v) # items) out =
     (case build_terms L (PStr (py_str I (PStr k))) of
        Inl e \<Rightarrow> Inl e
      | Inr ks \<Rightarrow>
          (case build_terms L (PStr (py_str I v)) of
             Inl e \<Rightarrow> Inl e
           | Inr vs \<Rightarrow> details_loop L I items ((out @ ks) @ vs)))"

definition p_details_tokens :: "lib \<Rightarrow> interp \<Rightarrow> pyval \<Rightarrow> error + ustring list" where
  "p_details_tokens L I lst = details_loop L I (details_items lst) []"

text \<open>The value of the local variable \<open>brand\<close> of \<open>preprocess_row\<close>, from \<open>brand_raw\<close>.\<close>

definition brand :: "lib \<Rightarrow> pyval \<Rightarrow> ustring" where
  "brand L brand_raw =
     (case brand_raw of
        PStr s \<Rightarrow>
          (let b = str_strip L (str_lower L (nfkc L s))
           in if b = [] then ustr ''unknown'' else b)
      | _ \<Rightarrow> ustr ''unknown'')"

text \<open>
  \<open>preprocess_row\<close>.  The dictionary display evaluates its values in the order written,
  so the first exception among \<open>build_terms(title)\<close>, \<open>build_terms(desc)\<close>, \<open>_details_tokens\<close>,
  \<open>_num\<close>, \<open>_num\<close> and \<open>_disc\<close> is the one that leaves the function; the other values cannot
  raise.  The token lists are lists of strings.
\<close>

definition tokens_val :: "ustring list \<Rightarrow> pyval" where
  "tokens_val ts = PList (map PStr ts)"

definition preprocess_row ::
  "lib \<Rightarrow> interp \<Rightarrow> (ustring \<times> pyval) list \<Rightarrow> error + (ustring \<times> pyval) list" where
  "preprocess_row L I doc =
     (let title = get doc (ustr ''title'') (PStr []);
          desc = get doc (ustr ''description'') (PStr []);
          brand_raw = get doc (ustr ''brand'') (PStr [])
      in case build_terms L title of
           Inl e \<Rightarrow> Inl e
         | Inr title_tokens \<Rightarrow>
        (case build_terms L desc of
           Inl e \<Rightarrow> Inl e
         | Inr desc_tokens \<Rightarrow>
        (case p_details_tokens L I (get doc (ustr ''product_details'') (PList [])) of
           Inl e \<Rightarrow> Inl e
         | Inr details_tokens \<Rightarrow>
        (case p_num L I (get doc (ustr ''selling_price'') PNone) of
           Inl e \<Rightarrow> Inl e
         | Inr selling_price \<Rightarrow>
        (case p_num L I (get doc (ustr ''actual_price'') PNone) of
           Inl e \<Rightarrow> Inl e
         | Inr actual_price \<Rightarrow>
        (case p_disc L I (get doc (ustr ''discount'') PNone) of
           Inl e \<Rightarrow> Inl e
         | Inr discount_frac \<Rightarrow>
           Inr [(ustr ''pid'', get doc (ustr ''pid'') PNone),
                (ustr ''title_raw'', title),
                (ustr ''description_raw'', desc),
                (ustr ''product_details_raw'', get doc (ustr ''product_details'') (PDict [])),
                (ustr ''discount_raw'', get doc (ustr ''discount'') PNone),
                (ustr ''url'', get doc (ustr ''url'') (PStr [])),
                (ustr ''brand'', PStr (brand L brand_raw)),
                (ustr ''category'', PStr (p_norm L (get doc (ustr ''category'') (PStr [])))),
                (ustr ''sub_category'',
                   PStr (p_norm L (get doc (ustr ''sub_category'') (PStr [])))),
                (ustr ''seller'', PStr (p_norm L (get doc (ustr ''seller'') (PStr [])))),
                (ustr ''title_tokens'', tokens_val title_tokens),
                (ustr ''desc_tokens'', tokens_val desc_tokens),
                (ustr ''details_tokens'', tokens_val details_tokens),
                (ustr ''out_of_stock'',
                   PBool (py_bool (get doc (ustr ''out_of_stock'') (PBool False)))),
                (ustr ''selling_price'', selling_price),
                (ustr ''actual_price'', actual_price),
                (ustr ''discount_frac'', discount_frac),
                (ustr ''average_rating'',
                   p_rating L I (get doc (ustr ''average_rating'') PNone))]))))))"

text \<open>The entry of a field in what \<open>preprocess_row\<close> returns, if it returns.\<close>

definition field :: "error + (ustring \<times> pyval) list \<Rightarrow> ustring \<Rightarrow> pyval option" where
  "field res key = (case res of Inl e \<Rightarrow> None | Inr r \<Rightarrow> map_of r key)"

section \<open>The libraries on ASCII text\<close>

text \<open>
  For statements about concrete strings the parameters need values.  \<open>cpython_ascii\<close> gives
  each one the value CPython and NLTK compute on strings whose code points are all
  below 128: NFKC leaves such a string unchanged, \<open>lower\<close> maps \<open>A\<close>..\<open>Z\<close> to \<open>a\<close>..\<open>z\<close>, the
  whitespace characters are 9..13 and 28..32, the word characters are the letters, the
  digits and the underscore, and the digits are \<open>0\<close>..\<open>9\<close>.

  This instance is the program on ASCII strings only.  On a code point from 128 on it
  is not CPython: it leaves the code point unchanged and counts it as neither a word
  character nor whitespace, where CPython knows accented letters, other scripts and
  other spaces.  A statement at this instance says something about the program for
  ASCII input, and nothing beyond.
\<close>

definition ascii_lower :: "ustring \<Rightarrow> ustring" where
  "ascii_lower s = map (\<lambda>c. if 65 \<le> c \<and> c \<le> 90 then c + 32 else c) s"

definition ascii_isspace :: "nat \<Rightarrow> bool" where
  "ascii_isspace c = ((9 \<le> c \<and> c \<le> 13) \<or> (28 \<le> c \<and> c \<le> 32))"

definition ascii_isdigit :: "nat \<Rightarrow> bool" where
  "ascii_isdigit c = (48 \<le> c \<and> c \<le> 57)"

definition ascii_isword :: "nat \<Rightarrow> bool" where
  "ascii_isword c =
     (ascii_isdigit c \<or> (65 \<le> c \<and> c \<le> 90) \<or> c = 95 \<or> (97 \<le> c \<and> c \<le> 122))"

definition ascii_decimal :: "nat \<Rightarrow> nat option" where
  "ascii_decimal c = (if ascii_isdigit c then Some (c - 48) else None)"

subsection \<open>The stemmer: \<open>nltk.stem.porter.PorterStemmer()\<close>\<close>

text \<open>
  \<open>text_tokenize.py\<close> builds \<open>_STEM = PorterStemmer()\<close>, the stemmer of NLTK in its default
  mode \<open>NLTK_EXTENSIONS\<close>.  NLTK is not part of the repository; the functions below follow
  that class method by method (\<open>_is_consonant\<close>, \<open>_measure\<close>, \<open>_apply_rule_list\<close>, \<open>_step1a\<close> ...
  \<open>_step5b\<close>, \<open>stem\<close>).  A rule is a suffix, its replacement and an optional condition on
  the stem; the suffix \<open>*d\<close> stands for a double consonant, as in the library.

  \<open>_is_consonant(word, i)\<close> calls itself on \<open>i - 1\<close> whenever the character at \<open>i\<close> is a \<open>y\<close>, so
  on a run of \<open>y\<close> it nests one frame per character, and the interpreter raises
  \<open>RecursionError\<close> when the frames exceed its limit (1000 by default).  It is the only
  exception the stemmer has, so every function that reaches \<open>_is_consonant\<close> returns an
  option, \<open>None\<close> for the exception, and keeps the order and the short-circuits of the
  library, which decide whether \<open>_is_consonant\<close> is called at all.  The frames of the
  callers are not counted: where the model raises the interpreter raises too, and the
  interpreter raises already for runs a few frames shorter.
\<close>

definition recursion_limit :: nat where
  "recursion_limit = 1000"

definition endswith :: "ustring \<Rightarrow> ustring \<Rightarrow> bool" where
  "endswith word suffix =
     (length suffix \<le> length word \<and> drop (length word - length suffix) word = suffix)"

definition replace_suffix :: "ustring \<Rightarrow> ustring \<Rightarrow> ustring \<Rightarrow> ustring" where
  "replace_suffix word suffix replacement =
     take (length word - length suffix) word @ replacement"

definition vowels :: "nat set" where
  "vowels = set (ustr ''aeiou'')"

text \<open>\<open>is_consonant_from k\<close>: the call with \<open>k\<close> frames of \<open>_is_consonant\<close> already open.\<close>

fun is_consonant_from :: "nat \<Rightarrow> ustring \<Rightarrow> nat \<Rightarrow> bool option" where
  "is_consonant_from k word 0 =
     (if recursion_limit \<le> k then None else Some (word ! 0 \<notin> vowels))"
| "is_consonant_from k word (Suc i) =
     (if recursion_limit \<le> k then None
      else if word ! Suc i \<in> vowels then Some False
      else if [word ! Suc i] = ustr ''y''
        then map_option Not (is_consonant_from (Suc k) word i)
      else Some True)"

definition is_consonant :: "ustring \<Rightarrow> nat \<Rightarrow> bool option" where
  "is_consonant word i = is_consonant_from 0 word i"

definition cv_sequence :: "ustring \<Rightarrow> bool list option" where
  "cv_sequence stm = those (map (is_consonant stm) [0..<length stm])"

fun count_vc :: "bool list \<Rightarrow> nat" where
  "count_vc (False # True # cv) = Suc (count_vc cv)"
| "count_vc (x # cv) = count_vc cv"
| "count_vc [] = 0"

definition porter_measure :: "ustring \<Rightarrow> nat option" where
  "porter_measure stm = map_option count_vc (cv_sequence stm)"

definition has_positive_measure :: "ustring \<Rightarrow> bool option" where
  "has_positive_measure stm = map_option (\<lambda>m. m > 0) (porter_measure stm)"

text \<open>\<open>_contains_vowel\<close> returns at the first vowel it finds.\<close>

fun contains_vowel_loop :: "ustring \<Rightarrow> nat list \<Rightarrow> bool option" where
  "contains_vowel_loop stm [] = Some False"
| "contains_vowel_loop stm (i # is) =
     (case is_consonant stm i of
        None \<Rightarrow> None
      | Some c \<Rightarrow> if \<not> c then Some True else contains_vowel_loop stm is)"

definition contains_vowel :: "ustring \<Rightarrow> bool option" where
  "contains_vowel stm = contains_vowel_loop stm [0..<length stm]"

definition ends_double_consonant :: "ustring \<Rightarrow> bool option" where
  "ends_double_consonant word =
     (if length word \<ge> 2 \<and> word ! (length word - 1) = word ! (length word - 2)
      then is_consonant word (length word - 1)
      else Some False)"

definition ends_cvc :: "ustring \<Rightarrow> bool option" where
  "ends_cvc word = do {
     cvc \<leftarrow>
       (if length word \<ge> 3 then do {
          c1 \<leftarrow> is_consonant word (length word - 3);
          if \<not> c1 then Some False else do {
            c2 \<leftarrow> is_consonant word (length word - 2);
            if c2 then Some False else do {
              c3 \<leftarrow> is_consonant word (length word - 1);
              Some (c3 \<and> word ! (length word - 1) \<notin> set (ustr ''wxy''))
            }
          }
        } else Some False);
     if cvc then Some True
     else if length word = 2 then do {
       c0 \<leftarrow> is_consonant word 0;
       if c0 then Some False else is_consonant word 1
     } else Some False
   }"

type_synonym rule = "ustring \<times> ustring \<times> (ustring \<Rightarrow> bool option) option"

definition holds :: "(ustring \<Rightarrow> bool option) option \<Rightarrow> ustring \<Rightarrow> bool option" where
  "holds condition stm = (case condition of None \<Rightarrow> Some True | Some c \<Rightarrow> c stm)"

fun apply_rule_list :: "ustring \<Rightarrow> rule list \<Rightarrow> ustring option" where
  "apply_rule_list word [] = Some word"
| "apply_rule_list word ((suffix, replacement, condition) # rules) =
     (case (if suffix = ustr ''*d'' then ends_double_consonant word else Some False) of
        None \<Rightarrow> None
      | Some double \<Rightarrow>
          if double then
            (let stm = take (length word - 2) word
             in map_option (\<lambda>ok. if ok then stm @ replacement else word)
                  (holds condition stm))
          else if endswith word suffix then
            (let stm = replace_suffix word suffix []
             in map_option (\<lambda>ok. if ok then stm @ replacement else word)
                  (holds condition stm))
          else apply_rule_list word rules)"

definition step1a :: "ustring \<Rightarrow> ustring option" where
  "step1a word =
     (if endswith word (ustr ''ies'') \<and> length word = 4
      then Some (replace_suffix word (ustr ''ies'') (ustr ''ie''))
      else apply_rule_list word
        [(ustr ''sses'', ustr ''ss'', None),
         (ustr ''ies'', ustr ''i'', None),
         (ustr ''ss'', ustr ''ss'', None),
         (ustr ''s'', [], None)])"

text \<open>
  The loop of \<open>_step1b\<close> over the suffixes \<open>ed\<close> and \<open>ing\<close>: the stem left by the first
  suffix that the word ends with and whose stem contains a vowel, if there is one.
\<close>

fun intermediate_stem_of :: "ustring \<Rightarrow> ustring list \<Rightarrow> ustring option option" where
  "intermediate_stem_of word [] = Some None"
| "intermediate_stem_of word (suffix # suffixes) =
     (if endswith word suffix then
        (case contains_vowel (replace_suffix word suffix []) of
           None \<Rightarrow> None
         | Some v \<Rightarrow>
             if v then Some (Some (replace_suffix word suffix []))
             else intermediate_stem_of word suffixes)
      else intermediate_stem_of word suffixes)"

definition step1b :: "ustring \<Rightarrow> ustring option" where
  "step1b word =
     (if endswith word (ustr ''ied'') then
        (if length word = 4 then Some (replace_suffix word (ustr ''ied'') (ustr ''ie''))
         else Some (replace_suffix word (ustr ''ied'') (ustr ''i'')))
      else if endswith word (ustr ''eed'') then
        (let stm = replace_suffix word (ustr ''eed'') []
         in map_option (\<lambda>m. if m > 0 then stm @ ustr ''ee'' else word) (porter_measure stm))
      else
        (case intermediate_stem_of word [ustr ''ed'', ustr ''ing''] of
           None \<Rightarrow> None
         | Some None \<Rightarrow> Some word
         | Some (Some intermediate_stem) \<Rightarrow>
             apply_rule_list intermediate_stem
               [(ustr ''at'', ustr ''ate'', None),
                (ustr ''bl'', ustr ''ble'', None),
                (ustr ''iz'', ustr ''ize'', None),
                (ustr ''*d'', [last intermediate_stem],
                   Some (\<lambda>stm. Some (last intermediate_stem \<notin> set (ustr ''lsz'')))),
                ([], ustr ''e'',
                   Some (\<lambda>stm. do {
                     m \<leftarrow> porter_measure stm;
                     if m = 1 then ends_cvc stm else Some False
                   }))]))"

definition step1c :: "ustring \<Rightarrow> ustring option" where
  "step1c word =
     apply_rule_list word
       [(ustr ''y'', ustr ''i'',
           Some (\<lambda>stm. if length stm > 1 then is_consonant stm (length stm - 1)
                       else Some False))]"

definition step2_rules :: "ustring \<Rightarrow> rule list" where
  "step2_rules word =
     [(ustr ''ational'', ustr ''ate'', Some has_positive_measure),
      (ustr ''tional'', ustr ''tion'', Some has_positive_measure),
      (ustr ''enci'', ustr ''ence'', Some has_positive_measure),
      (ustr ''anci'', ustr ''ance'', Some has_positive_measure),
      (ustr ''izer'', ustr ''ize'', Some has_positive_measure),
      (ustr ''bli'', ustr ''ble'', Some has_positive_measure),
      (ustr ''alli'', ustr ''al'', Some has_positive_measure),
      (ustr ''entli'', ustr ''ent'', Some has_positive_measure),
      (ustr ''eli'', ustr ''e'', Some has_positive_measure),
      (ustr ''ousli'', ustr ''ous'', Some has_positive_measure),
      (ustr ''ization'', ustr ''ize'', Some has_positive_measure),
      (ustr ''ation'', ustr ''ate'', Some has_positive_measure),
      (ustr ''ator'', ustr ''ate'', Some has_positive_measure),
      (ustr ''alism'', ustr ''al'', Some has_positive_measure),
      (ustr ''iveness'', ustr ''ive'', Some has_positive_measure),
      (ustr ''fulness'', ustr ''ful'', Some has_positive_measure),
      (ustr ''ousness'', ustr ''ous'', Some has_positive_measure),
      (ustr ''aliti'', ustr ''al'', Some has_positive_measure),
      (ustr ''iviti'', ustr ''ive'', Some has_positive_measure),
      (ustr ''biliti'', ustr ''ble'', Some has_positive_measure),
      (ustr ''fulli'', ustr ''ful'', Some has_positive_measure),
      (ustr ''logi'', ustr ''log'',
         Some (\<lambda>stm. has_positive_measure (take (length word - 3) word)))]"

text \<open>
  \<open>_step2\<close> calls itself once when the word ends with \<open>alli\<close>; the word it passes on ends
  with \<open>al\<close>, so the call is never nested further.
\<close>

function step2 :: "ustring \<Rightarrow> ustring option" where
  "step2 word =
     (if endswith word (ustr ''alli'') then
        (case has_positive_measure (replace_suffix word (ustr ''alli'') []) of
           None \<Rightarrow> None
         | Some positive \<Rightarrow>
             if positive then step2 (replace_suffix word (ustr ''alli'') (ustr ''al''))
             else apply_rule_list word (step2_rules word))
      else apply_rule_list word (step2_rules word))"
  by pat_completeness auto
termination
  by (relation "measure length")
     (auto simp: endswith_def replace_suffix_def ustr_def)

declare step2.simps [simp del]

definition step3 :: "ustring \<Rightarrow> ustring option" where
  "step3 word =
     apply_rule_list word
       [(ustr ''icate'', ustr ''ic'', Some has_positive_measure),
        (ustr ''ative'', [], Some has_positive_measure),
        (ustr ''alize'', ustr ''al'', Some has_positive_measure),
        (ustr ''iciti'', ustr ''ic'', Some has_positive_measure),
        (ustr ''ical'', ustr ''ic'', Some has_positive_measure),
        (ustr ''ful'', [], Some has_positive_measure),
        (ustr ''ness'', [], Some has_positive_measure)]"

definition measure_gt_1 :: "ustring \<Rightarrow> bool option" where
  "measure_gt_1 stm = map_option (\<lambda>m. m > 1) (porter_measure stm)"

definition step4 :: "ustring \<Rightarrow> ustring option" where
  "step4 word =
     apply_rule_list word
       [(ustr ''al'', [], Some measure_gt_1),
        (ustr ''ance'', [], Some measure_gt_1),
        (ustr ''ence'', [], Some measure_gt_1),
        (ustr ''er'', [], Some measure_gt_1),
        (ustr ''ic'', [], Some measure_gt_1),
        (ustr ''able'', [], Some measure_gt_1),
        (ustr ''ible'', [], Some measure_gt_1),
        (ustr ''ant'', [], Some measure_gt_1),
        (ustr ''ement'', [], Some measure_gt_1),
        (ustr ''ment'', [], Some measure_gt_1),
        (ustr ''ent'', [], Some measure_gt_1),
        (ustr ''ion'', [],
           Some (\<lambda>stm. map_option (\<lambda>m. m > 1 \<and> last stm \<in> set (ustr ''st''))
                         (porter_measure stm))),
        (ustr ''ou'', [], Some measure_gt_1),
        (ustr ''ism'', [], Some measure_gt_1),
        (ustr ''ate'', [], Some measure_gt_1),
        (ustr ''iti'', [], Some measure_gt_1),
        (ustr ''ous'', [], Some measure_gt_1),
        (ustr ''ive'', [], Some measure_gt_1),
        (ustr ''ize'', [], Some measure_gt_1)]"

definition step5a :: "ustring \<Rightarrow> ustring option" where
  "step5a word =
     (if endswith word (ustr ''e'') then
        (let stm = replace_suffix word (ustr ''e'') []
         in do {
           m \<leftarrow> porter_measure stm;
           if m > 1 then Some stm
           else if m = 1 then map_option (\<lambda>cvc. if \<not> cvc then stm else word) (ends_cvc stm)
           else Some word
         })
      else Some word)"

definition step5b :: "ustring \<Rightarrow> ustring option" where
  "step5b word =
     apply_rule_list word
       [(ustr ''ll'', ustr ''l'',
           Some (\<lambda>stm. map_option (\<lambda>m. m > 1)
                         (porter_measure (take (length word - 1) word))))]"

text \<open>The irregular forms the stemmer looks up before it applies any rule.\<close>

definition pool :: "(ustring \<times> ustring) list" where
  "pool =
     [(ustr ''sky'', ustr ''sky''), (ustr ''skies'', ustr ''sky''),
      (ustr ''dying'', ustr ''die''), (ustr ''lying'', ustr ''lie''),
      (ustr ''tying'', ustr ''tie''), (ustr ''news'', ustr ''news''),
      (ustr ''innings'', ustr ''inning''), (ustr ''inning'', ustr ''inning''),
      (ustr ''outings'', ustr ''outing''), (ustr ''outing'', ustr ''outing''),
      (ustr ''cannings'', ustr ''canning''), (ustr ''canning'', ustr ''canning''),
      (ustr ''howe'', ustr ''howe''), (ustr ''proceed'', ustr ''proceed''),
      (ustr ''exceed'', ustr ''exceed''), (ustr ''succeed'', ustr ''succeed'')]"

definition porter_stem :: "ustring \<Rightarrow> ustring option" where
  "porter_stem word =
     (let stm = ascii_lower word
      in case map_of pool word of
           Some s \<Rightarrow> Some s
         | None \<Rightarrow>
             if length word \<le> 2 then Some stm
             else do {
               w \<leftarrow> step1a stm;
               w \<leftarrow> step1b w;
               w \<leftarrow> step1c w;
               w \<leftarrow> step2 w;
               w \<leftarrow> step3 w;
               w \<leftarrow> step4 w;
               w \<leftarrow> step5a w;
               step5b w
             })"

text \<open>\<open>_STEM.stem(t)\<close>: the stem, or the exception.\<close>

definition nltk_stem :: "ustring \<Rightarrow> error + ustring" where
  "nltk_stem word = (case porter_stem word of None \<Rightarrow> Inl RecursionError | Some s \<Rightarrow> Inr s)"

subsection \<open>The stopword set: \<open>stopwords.words("english")\<close>\<close>

text \<open>
  The English list of the NLTK stopwords corpus (its 179 entries).  Later releases of
  the corpus add contractions to the list and remove nothing.
\<close>

definition nltk_stopwords :: "ustring list" where
  "nltk_stopwords = map ustr
     [''i'', ''me'', ''my'', ''myself'', ''we'', ''our'', ''ours'', ''ourselves'', ''you'',
      ''you're'', ''you've'', ''you'll'', ''you'd'', ''your'', ''yours'', ''yourself'',
      ''yourselves'', ''he'', ''him'', ''his'', ''himself'', ''she'', ''she's'', ''her'',
      ''hers'', ''herself'', ''it'', ''it's'', ''its'', ''itself'', ''they'', ''them'',
      ''their'', ''theirs'', ''themselves'', ''what'', ''which'', ''who'', ''whom'', ''this'',
      ''that'', ''that'll'', ''these'', ''those'', ''am'', ''is'', ''are'', ''was'', ''were'',
      ''be'', ''been'', ''being'', ''have'', ''has'', ''had'', ''having'', ''do'', ''does'',
      ''did'', ''doing'', ''a'', ''an'', ''the'', ''and'', ''but'', ''if'', ''or'', ''because'',
      ''as'', ''until'', ''while'', ''of'', ''at'', ''by'', ''for'', ''with'', ''about'',
      ''against'', ''between'', ''into'', ''through'', ''during'', ''before'', ''after'',
      ''above'', ''below'', ''to'', ''from'', ''up'', ''down'', ''in'', ''out'', ''on'', ''off'',
      ''over'', ''under'', ''again'', ''further'', ''then'', ''once'', ''here'', ''there'',
      ''when'', ''where'', ''why'', ''how'', ''all'', ''any'', ''both'', ''each'', ''few'',
      ''more'', ''most'', ''other'', ''some'', ''such'', ''no'', ''nor'', ''not'', ''only'',
      ''own'', ''same'', ''so'', ''than'', ''too'', ''very'', ''s'', ''t'', ''can'', ''will'',
      ''just'', ''don'', ''don't'', ''should'', ''should've'', ''now'', ''d'', ''ll'', ''m'',
      ''o'', ''re'', ''ve'', ''y'', ''ain'', ''aren'', ''aren't'', ''couldn'', ''couldn't'',
      ''didn'', ''didn't'', ''doesn'', ''doesn't'', ''hadn'', ''hadn't'', ''hasn'', ''hasn't'',
      ''haven'', ''haven't'', ''isn'', ''isn't'', ''ma'', ''mightn'', ''mightn't'', ''mustn'',
      ''mustn't'', ''needn'', ''needn't'', ''shan'', ''shan't'', ''shouldn'', ''shouldn't'',
      ''wasn'', ''wasn't'', ''weren'', ''weren't'', ''won'', ''won't'', ''wouldn'',
      ''wouldn't'']"

definition cpython_ascii :: lib where
  "cpython_ascii =
     \<lparr>nfkc = (\<lambda>s. s),
      str_lower = ascii_lower,
      isspace = ascii_isspace,
      isword = ascii_isword,
      decimal = ascii_decimal,
      isdigit = ascii_isdigit,
      stem = nltk_stem,
      STOP = set nltk_stopwords\<rparr>"

section \<open>The notions of the specification\<close>


text \<open>
  "The first decimal-or-integer numeric substring": \<open>first_numeral L m post v\<close> says that \<open>m\<close>
  is a run of digits, or a run of digits, a point and a run of digits, that it has the
  value \<open>v\<close>, and that it is not continued by \<open>post\<close>, the text that follows it.
\<close>

definition starts_dec :: "lib \<Rightarrow> ustring \<Rightarrow> bool" where
  "starts_dec L s = (case s of [] \<Rightarrow> False | c # q \<Rightarrow> isdec L c)"

inductive first_numeral :: "lib \<Rightarrow> ustring \<Rightarrow> ustring \<Rightarrow> real \<Rightarrow> bool" for L where
  integer:
    "ip \<noteq> [] \<Longrightarrow> list_all (isdec L) ip \<Longrightarrow> \<not> starts_dec L post
       \<Longrightarrow> \<not> (\<exists>q. post = 46 # q \<and> starts_dec L q)
       \<Longrightarrow> first_numeral L ip post (real (digits_val L ip))"
| fraction:
    "ip \<noteq> [] \<Longrightarrow> list_all (isdec L) ip \<Longrightarrow> fr \<noteq> [] \<Longrightarrow> list_all (isdec L) fr
       \<Longrightarrow> \<not> starts_dec L post
       \<Longrightarrow> first_numeral L (ip @ 46 # fr) post
             (real (digits_val L ip) + real (digits_val L fr) / 10 ^ length fr)"

text \<open>
  "A flat sequence of (key, value) pairs: if mapping, its entries; if sequence,
  concatenate entries of every contained mapping (silently skip non-mapping elements);
  otherwise empty."
\<close>

fun entries :: "pyval \<Rightarrow> (ustring \<times> pyval) list" where
  "entries (PDict kvs) = kvs"
| "entries v = []"

fun flat_pairs :: "pyval \<Rightarrow> (ustring \<times> pyval) list" where
  "flat_pairs (PDict kvs) = kvs"
| "flat_pairs (PList ds) = concat (map entries ds)"
| "flat_pairs v = []"

text \<open>
  "Tokenize the key's string form and the value's string form independently via the
  Tokenizer, and concatenate all resulting tokens in pair order, key-tokens-then-
  value-tokens per pair": the texts to tokenize, in that order.
\<close>

definition pair_texts :: "interp \<Rightarrow> pyval \<Rightarrow> pyval list" where
  "pair_texts I lst = concat (map (\<lambda>(k, v). [PStr k, PStr (py_str I v)]) (flat_pairs lst))"

subsection \<open>Auxiliary notions\<close>

text \<open>The maximal runs of characters of a class, in order: the words of a text.\<close>

function word_runs :: "(nat \<Rightarrow> bool) \<Rightarrow> ustring \<Rightarrow> ustring list" where
  "word_runs p [] = []"
| "word_runs p (c # cs) =
     (if p c then (c # takeWhile p cs) # word_runs p (dropWhile p cs)
      else word_runs p cs)"
  by pat_completeness auto
termination
  by (relation "measure (\<lambda>(p, s). length s)")
     (auto simp: less_Suc_eq_le length_dropWhile_le)


text \<open>
  What the facet normalizer needs of the Unicode library.  Whether normalizing a facet
  twice changes it depends on \<open>unicodedata\<close> and \<open>str.lower\<close>, which are not part of the
  repository.  Three facts about them are enough, and none of them mentions the code:

  \<^item> the space character (code point 32) is whitespace;
  \<^item> no character is both whitespace and a word character;
  \<^item> a text made of the words of an NFKC-normalized, lowercased text, with nothing but
    spaces between and around them, is itself unchanged by NFKC and lowercasing.

  The third holds in Unicode because the word characters that NFKC and lowercasing
  produce are themselves fixed by both, and the characters that combine with a
  neighbour are either marks, which are not word characters, or Hangul jamo, which
  NFKC has already composed inside a word.
\<close>

definition unicode_facts :: "lib \<Rightarrow> bool" where
  "unicode_facts L =
     (isspace L 32
      \<and> (\<forall>c. isspace L c \<longrightarrow> \<not> isword L c)
      \<and> (\<forall>s v. word_runs (isword L) v = word_runs (isword L) (str_lower L (nfkc L s))
                 \<and> (\<forall>c \<in> set v. isword L c \<or> c = 32)
               \<longrightarrow> str_lower L (nfkc L v) = v))"

definition is_ascii :: "ustring \<Rightarrow> bool" where
  "is_ascii s = (\<forall>c \<in> set s. c < 128)"

text \<open>A string in which whitespace occurs only as single spaces (code point 32).\<close>

fun single_spaced :: "(nat \<Rightarrow> bool) \<Rightarrow> ustring \<Rightarrow> bool" where
  "single_spaced p [] = True"
| "single_spaced p (c # cs) =
     (if p c then c = 32 \<and> (case cs of [] \<Rightarrow> True | d # ds \<Rightarrow> \<not> p d) \<and> single_spaced p cs
      else single_spaced p cs)"

section \<open>Lemmas on the number pattern and \<open>float\<close>\<close>

lemma takeWhile_all: "list_all P xs \<Longrightarrow> takeWhile P xs = xs"
  by (induction xs) auto

lemma dropWhile_all: "list_all P xs \<Longrightarrow> dropWhile P xs = []"
  by (induction xs) auto

lemma list_all_takeWhile: "list_all P (takeWhile P xs)"
  by (induction xs) auto

lemma dropWhile_head: "case dropWhile P s of [] \<Rightarrow> True | c # q \<Rightarrow> \<not> P c"
  by (induction s) auto

lemma float_str_digits:
  "ip \<noteq> [] \<Longrightarrow> list_all (isdec L) ip \<Longrightarrow> float_str L I ip = Inr (real (digits_val L ip))"
  by (simp add: float_str_def takeWhile_all dropWhile_all)

lemma float_str_fraction:
  assumes "ip \<noteq> []" "list_all (isdec L) ip" "\<not> isdec L 46" "fr \<noteq> []" "list_all (isdec L) fr"
  shows "float_str L I (ip @ 46 # fr)
         = Inr (real (digits_val L ip) + real (digits_val L fr) / 10 ^ length fr)"
proof -
  have t: "takeWhile (isdec L) (ip @ 46 # fr) = ip"
    using assms by (simp add: takeWhile_append list_all_iff)
  have d: "dropWhile (isdec L) (ip @ 46 # fr) = 46 # fr"
    using assms by (simp add: dropWhile_append list_all_iff)
  show ?thesis
    using assms by (simp add: float_str_def t d)
qed

text \<open>What one attempt of the matcher returns.\<close>

lemma match_number_cases:
  assumes "match_number L s = Some (m, r)"
  shows "s = m @ r \<and>
         ((m \<noteq> [] \<and> list_all (isdec L) m
             \<and> (case r of [] \<Rightarrow> True | c # q \<Rightarrow> \<not> isdec L c)
             \<and> \<not> (\<exists>q d q'. r = 46 # d # q' \<and> isdec L d))
          \<or> (\<exists>ip fr. m = ip @ 46 # fr \<and> ip \<noteq> [] \<and> list_all (isdec L) ip \<and> \<not> isdec L 46
                \<and> fr \<noteq> [] \<and> list_all (isdec L) fr
                \<and> (case r of [] \<Rightarrow> True | c # q \<Rightarrow> \<not> isdec L c)))"
proof -
  define ip where "ip = takeWhile (isdec L) s"
  define r0 where "r0 = dropWhile (isdec L) s"
  have s: "s = ip @ r0" by (simp add: ip_def r0_def)
  have ip: "list_all (isdec L) ip" by (simp add: ip_def list_all_takeWhile)
  have mn: "match_number L s =
      (if ip = [] then None
       else case r0 of
           [] \<Rightarrow> Some (ip, [])
         | c # fr \<Rightarrow>
             if c = 46 \<and> takeWhile (isdec L) fr \<noteq> []
             then Some (ip @ 46 # takeWhile (isdec L) fr, dropWhile (isdec L) fr)
             else Some (ip, r0))"
    unfolding match_number_def Let_def ip_def r0_def by (rule refl)
  have ne: "ip \<noteq> []"
    using assms mn by (auto split: if_splits)
  have hd0: "case r0 of [] \<Rightarrow> True | c # q \<Rightarrow> \<not> isdec L c"
    unfolding r0_def by (rule dropWhile_head)
  show ?thesis
  proof (cases r0)
    case Nil
    with assms ne mn have "m = ip" "r = []" by auto
    with s Nil ip ne show ?thesis by simp
  next
    case (Cons c fr)
    define fp where "fp = takeWhile (isdec L) fr"
    define fq where "fq = dropWhile (isdec L) fr"
    have fr: "fr = fp @ fq" by (simp add: fp_def fq_def)
    have fpall: "list_all (isdec L) fp" by (simp add: fp_def list_all_takeWhile)
    have hdq: "case fq of [] \<Rightarrow> True | c # q \<Rightarrow> \<not> isdec L c"
      unfolding fq_def by (rule dropWhile_head)
    have nc: "\<not> isdec L c" using hd0 Cons by simp
    show ?thesis
    proof (cases "c = 46 \<and> fp \<noteq> []")
      case True
      with assms ne Cons mn have "m = ip @ 46 # fp" "r = fq"
        by (auto simp: fp_def fq_def)
      with s Cons fr True ip ne fpall hdq nc show ?thesis by auto
    next
      case False
      with assms ne Cons mn have mr: "m = ip" "r = c # fr"
        by (auto simp: fp_def)
      have "\<not> (\<exists>q d q'. r = 46 # d # q' \<and> isdec L d)"
        using False mr by (auto simp: fp_def)
      with s Cons mr ip ne nc show ?thesis by simp
    qed
  qed
qed

lemma match_number_float:
  assumes "match_number L s = Some (m, r)"
  shows "\<exists>v. float_str L I m = Inr v"
proof -
  from match_number_cases [OF assms] consider
      (int) "m \<noteq> []" "list_all (isdec L) m"
    | (frac) ip fr where "m = ip @ 46 # fr" "ip \<noteq> []" "list_all (isdec L) ip"
        "\<not> isdec L 46" "fr \<noteq> []" "list_all (isdec L) fr"
    by blast
  then show ?thesis
  proof cases
    case int
    then show ?thesis by (simp add: float_str_digits)
  next
    case frac
    then show ?thesis by (simp add: float_str_fraction)
  qed
qed

lemma re_findall_search:
  "re_findall_number L s = [] \<longleftrightarrow> re_search_number L s = None"
  "re_findall_number L s = m # ms \<Longrightarrow> re_search_number L s = Some m"
  by (induction L s rule: re_search_number.induct) (auto split: option.splits)

lemma re_search_number_None:
  "re_search_number L s = None \<longleftrightarrow> (\<forall>c\<in>set s. \<not> isdec L c)"
proof (induction s)
  case Nil
  show ?case by simp
next
  case (Cons c cs)
  have "match_number L (c # cs) = None \<longleftrightarrow> \<not> isdec L c"
    by (auto simp: match_number_def Let_def split: list.splits)
  with Cons show ?case by (auto split: option.splits)
qed

lemma re_search_number_Some:
  "re_search_number L s = Some m \<Longrightarrow>
     \<exists>pre post. s = pre @ m @ post \<and> (\<forall>c\<in>set pre. \<not> isdec L c)
        \<and> match_number L (m @ post) = Some (m, post)"
proof (induction s)
  case Nil
  then show ?case by simp
next
  case (Cons c cs)
  show ?case
  proof (cases "match_number L (c # cs)")
    case None
    then have nd: "\<not> isdec L c"
      by (auto simp: match_number_def Let_def split: list.splits if_splits)
    from None Cons.prems have "re_search_number L cs = Some m" by simp
    from Cons.IH [OF this] obtain pre post where
      "cs = pre @ m @ post" "\<forall>c\<in>set pre. \<not> isdec L c"
      "match_number L (m @ post) = Some (m, post)" by blast
    with nd have "c # cs = (c # pre) @ m @ post \<and> (\<forall>c\<in>set (c # pre). \<not> isdec L c)
        \<and> match_number L (m @ post) = Some (m, post)" by simp
    then show ?thesis by blast
  next
    case (Some mr)
    obtain m' r where mr: "mr = (m', r)" by (cases mr)
    with Some Cons.prems have m: "m' = m" by simp
    from match_number_cases [of L "c # cs" m r] Some mr m have "c # cs = m @ r" by simp
    with Some mr m have "c # cs = [] @ m @ r \<and> (\<forall>c\<in>set []. \<not> isdec L c)
        \<and> match_number L (m @ r) = Some (m, r)" by simp
    then show ?thesis by blast
  qed
qed

section \<open>Lemmas on the row transformer\<close>

lemma p_num_Inr: "\<exists>v. p_num L I x = Inr v"
proof (cases "re_findall_number L (filter (\<lambda>c. c \<noteq> 44) (py_str I x))")
  case Nil
  then show ?thesis by (simp add: p_num_def)
next
  case (Cons m ms)
  then have "re_search_number L (filter (\<lambda>c. c \<noteq> 44) (py_str I x)) = Some m"
    by (rule re_findall_search(2))
  from re_search_number_Some [OF this] obtain post where
    "match_number L (m @ post) = Some (m, post)" by blast
  from match_number_float [OF this] obtain v where "float_str L I m = Inr v" by blast
  with Cons show ?thesis by (simp add: p_num_def)
qed

lemma p_disc_Inr: "\<exists>v. p_disc L I x = Inr v"
proof (cases "re_search_number L (py_str I x)")
  case None
  then show ?thesis by (simp add: p_disc_def)
next
  case (Some g)
  from re_search_number_Some [OF this] obtain post where
    "match_number L (g @ post) = Some (g, post)" by blast
  from match_number_float [OF this] obtain v where "float_str L I g = Inr v" by blast
  with Some show ?thesis by (simp add: p_disc_def)
qed

lemma ustr_eq_iff: "ustr a = ustr b \<longleftrightarrow> a = b"
  by (simp add: ustr_def inj_map_eq_map inj_def)

section \<open>The parsers on concrete strings\<close>

lemma isdec_ascii [simp]: "isdec cpython_ascii c = (48 \<le> c \<and> c \<le> 57)"
  by (simp add: isdec_def cpython_ascii_def ascii_decimal_def ascii_isdigit_def)

lemma decimal_ascii [simp]: "decimal cpython_ascii c = (if 48 \<le> c \<and> c \<le> 57 then Some (c - 48) else None)"
  by (simp add: cpython_ascii_def ascii_decimal_def ascii_isdigit_def)

lemma p_num_1299: "p_num cpython_ascii I (PStr (ustr ''1,299'')) = Inr (PFloat 1299)"
  by (simp add: p_num_def ustr_def match_number_def float_str_def digits_val_def)

lemma p_num_499: "p_num cpython_ascii I (PStr (ustr ''Rs. 499.50 only'')) = Inr (PFloat 499.5)"
  by (simp add: p_num_def ustr_def match_number_def float_str_def digits_val_def)

lemma p_num_no_price: "p_num cpython_ascii I (PStr (ustr ''no price'')) = Inr PNone"
  by (simp add: p_num_def ustr_def match_number_def float_str_def digits_val_def)

lemma p_disc_1299: "p_disc cpython_ascii I (PStr (ustr ''1,299'')) = Inr (PFloat 0.01)"
  by (simp add: p_disc_def ustr_def match_number_def float_str_def digits_val_def)

lemma p_disc_150: "p_disc cpython_ascii I (PStr (ustr ''150% off'')) = Inr (PFloat 1.5)"
  by (simp add: p_disc_def ustr_def match_number_def float_str_def digits_val_def)

lemma p_disc_50: "p_disc cpython_ascii I (PStr (ustr ''50% off'')) = Inr (PFloat 0.5)"
  by (simp add: p_disc_def ustr_def match_number_def float_str_def digits_val_def)

section \<open>Lemmas on the brand\<close>

lemma filter_dropWhile_other:
  "(\<And>c. P c \<Longrightarrow> \<not> Q c) \<Longrightarrow> filter P (dropWhile Q s) = filter P s"
  by (induction s) auto

lemma filter_str_strip:
  assumes "\<And>c. P c \<Longrightarrow> \<not> isspace L c"
  shows "filter P (str_strip L s) = filter P s"
proof -
  have "filter P (str_strip L s) = rev (filter P (dropWhile (isspace L) (rev (dropWhile (isspace L) s))))"
    by (simp add: str_strip_def rev_filter)
  also have "\<dots> = rev (filter P (rev (dropWhile (isspace L) s)))"
    using assms by (simp add: filter_dropWhile_other)
  also have "\<dots> = filter P (dropWhile (isspace L) s)"
    by (simp add: rev_filter)
  also have "\<dots> = filter P s"
    using assms by (simp add: filter_dropWhile_other)
  finally show ?thesis .
qed

lemma filter_PUNCT_ascii_lower:
  "filter (PUNCT cpython_ascii) (ascii_lower s) = filter (PUNCT cpython_ascii) s"
  by (induction s)
     (auto simp: ascii_lower_def PUNCT_def cpython_ascii_def ascii_isword_def
        ascii_isspace_def ascii_isdigit_def)

lemma brand_keeps_punct:
  assumes "str_strip cpython_ascii (ascii_lower s) \<noteq> []"
  shows "filter (PUNCT cpython_ascii) (brand cpython_ascii (PStr s))
         = filter (PUNCT cpython_ascii) s"
proof -
  have "brand cpython_ascii (PStr s) = str_strip cpython_ascii (ascii_lower s)"
    using assms by (simp add: brand_def cpython_ascii_def Let_def)
  moreover have "filter (PUNCT cpython_ascii) (str_strip cpython_ascii (ascii_lower s))
      = filter (PUNCT cpython_ascii) (ascii_lower s)"
    by (rule filter_str_strip) (simp add: PUNCT_def)
  ultimately show ?thesis
    by (simp add: filter_PUNCT_ascii_lower)
qed

lemma brand_HM: "brand cpython_ascii (PStr (ustr ''H&M'')) = ustr ''h&m''"
  by (simp add: brand_def cpython_ascii_def Let_def str_strip_def ascii_lower_def
      ascii_isspace_def ustr_def)

lemma ustr_Nil_iff: "ustr s = [] \<longleftrightarrow> s = []"
  by (simp add: ustr_def)

section \<open>Lemmas on the numeric parser\<close>

lemma match_number_first_numeral:
  assumes "match_number L (m @ post) = Some (m, post)"
  shows "\<exists>v. first_numeral L m post v \<and> float_str L I m = Inr v"
proof -
  let ?int = "m \<noteq> [] \<and> list_all (isdec L) m \<and> \<not> starts_dec L post
        \<and> \<not> (\<exists>d q'. post = 46 # d # q' \<and> isdec L d)"
  let ?frac = "\<exists>ip fr. m = ip @ 46 # fr \<and> ip \<noteq> [] \<and> list_all (isdec L) ip \<and> \<not> isdec L 46
            \<and> fr \<noteq> [] \<and> list_all (isdec L) fr \<and> \<not> starts_dec L post"
  from match_number_cases [OF assms] have disj: "?int \<or> ?frac"
    by (cases post) (simp_all add: starts_dec_def)
  from disj show ?thesis
  proof
    assume ?int
    then have i: "m \<noteq> []" "list_all (isdec L) m" "\<not> starts_dec L post"
      and n: "\<not> (\<exists>d q'. post = 46 # d # q' \<and> isdec L d)" by simp_all
    have b: "\<not> (\<exists>q. post = 46 # q \<and> starts_dec L q)"
    proof
      assume "\<exists>q. post = 46 # q \<and> starts_dec L q"
      then obtain q where q: "post = 46 # q" "starts_dec L q" by blast
      then obtain d q' where "q = d # q'" "isdec L d"
        by (cases q) (simp_all add: starts_dec_def)
      with q n show False by simp
    qed
    from first_numeral.integer [OF i b] float_str_digits [OF i(1,2), of I]
    show ?thesis by blast
  next
    assume ?frac
    then obtain ip fr where f: "m = ip @ 46 # fr" "ip \<noteq> []" "list_all (isdec L) ip"
        "\<not> isdec L 46" "fr \<noteq> []" "list_all (isdec L) fr" "\<not> starts_dec L post"
      by (elim exE conjE)
    from first_numeral.fraction [OF f(2,3,5,6,7)]
      float_str_fraction [OF f(2,3,4,5,6), of I] f(1)
    show ?thesis by blast
  qed
qed

lemma p_num_None: "p_num L I PNone = Inr PNone"
  by (simp add: p_num_def)

lemma p_num_no_digit:
  assumes "x \<noteq> PNone" "\<forall>c \<in> set (filter (\<lambda>c. c \<noteq> 44) (py_str I x)). \<not> isdec L c"
  shows "p_num L I x = Inr PNone"
proof -
  have "re_search_number L (filter (\<lambda>c. c \<noteq> 44) (py_str I x)) = None"
    using assms(2) by (simp only: re_search_number_None)
  then have "re_findall_number L (filter (\<lambda>c. c \<noteq> 44) (py_str I x)) = []"
    by (simp only: re_findall_search(1))
  with assms(1) show ?thesis by (simp add: p_num_def)
qed

lemma p_num_digit:
  assumes "x \<noteq> PNone" "\<exists>c \<in> set (filter (\<lambda>c. c \<noteq> 44) (py_str I x)). isdec L c"
  shows "\<exists>pre m post v. filter (\<lambda>c. c \<noteq> 44) (py_str I x) = pre @ m @ post
           \<and> (\<forall>c \<in> set pre. \<not> isdec L c) \<and> first_numeral L m post v
           \<and> p_num L I x = Inr (PFloat v)"
proof -
  define s where "s = filter (\<lambda>c. c \<noteq> 44) (py_str I x)"
  have "re_search_number L s \<noteq> None"
    using assms(2) unfolding s_def by (simp add: re_search_number_None)
  then have "re_findall_number L s \<noteq> []"
    by (simp add: re_findall_search(1))
  then obtain m ms where f: "re_findall_number L s = m # ms"
    by (cases "re_findall_number L s") auto
  then have "re_search_number L s = Some m" by (rule re_findall_search(2))
  from re_search_number_Some [OF this] obtain pre post where
    d: "s = pre @ m @ post" "\<forall>c\<in>set pre. \<not> isdec L c"
      "match_number L (m @ post) = Some (m, post)" by blast
  from match_number_first_numeral [OF d(3), of I] obtain v where
    v: "first_numeral L m post v" "float_str L I m = Inr v" by blast
  have "p_num L I x = Inr (PFloat v)"
    using assms(1) f v(2) by (simp add: p_num_def s_def [symmetric])
  with d v(1) show ?thesis unfolding s_def by blast
qed

section \<open>Lemmas on substitution and stripping\<close>

lemma re_sub_runs_none: "\<forall>c \<in> set s. \<not> p c \<Longrightarrow> re_sub_runs p s = s"
  by (induction s) auto

lemma re_sub_runs_set: "set (re_sub_runs p s) \<subseteq> insert 32 (set s)"
proof (induction p s rule: re_sub_runs.induct)
  case (1 p)
  show ?case by simp
next
  case (2 p c cs)
  have d: "set (dropWhile p cs) \<subseteq> set cs"
    by (auto dest: set_dropWhileD)
  show ?case
  proof (cases "p c")
    case True
    with 2(1) d show ?thesis by auto
  next
    case False
    with 2(2) show ?thesis by auto
  qed
qed

lemma re_sub_runs_clean: "\<not> p 32 \<Longrightarrow> \<forall>c \<in> set (re_sub_runs p s). \<not> p c"
proof (induction p s rule: re_sub_runs.induct)
  case (1 p)
  show ?case by simp
next
  case (2 p c cs)
  show ?case
  proof (cases "p c")
    case True
    with 2(1,3) show ?thesis by simp
  next
    case False
    with 2(2,3) show ?thesis by simp
  qed
qed

lemma dropWhile_id: "(case t of [] \<Rightarrow> True | c # q \<Rightarrow> \<not> P c) \<Longrightarrow> dropWhile P t = t"
  by (cases t) simp_all

lemma re_sub_runs_head0:
  "(case s of [] \<Rightarrow> True | d # ds \<Rightarrow> \<not> p d)
     \<Longrightarrow> (case re_sub_runs p s of [] \<Rightarrow> True | d # ds \<Rightarrow> \<not> p d)"
  by (cases s) simp_all

lemma re_sub_runs_head:
  "case re_sub_runs p (dropWhile p cs) of [] \<Rightarrow> True | d # ds \<Rightarrow> \<not> p d"
  by (rule re_sub_runs_head0) (rule dropWhile_head)

lemma re_sub_runs_single_spaced: "p 32 \<Longrightarrow> single_spaced p (re_sub_runs p s)"
proof (induction p s rule: re_sub_runs.induct)
  case (1 p)
  show ?case by simp
next
  case (2 p c cs)
  show ?case
  proof (cases "p c")
    case True
    with 2 re_sub_runs_head [of p cs] show ?thesis by simp
  next
    case False
    with 2 show ?thesis by simp
  qed
qed

lemma single_spaced_fixed: "single_spaced p s \<Longrightarrow> re_sub_runs p s = s"
proof (induction s)
  case Nil
  show ?case by simp
next
  case (Cons c cs)
  show ?case
  proof (cases "p c")
    case True
    with Cons.prems have c: "c = 32" and h: "case cs of [] \<Rightarrow> True | d # ds \<Rightarrow> \<not> p d"
      and r: "single_spaced p cs" by simp_all
    from h have "dropWhile p cs = cs" by (cases cs) simp_all
    with True c Cons.IH [OF r] show ?thesis by simp
  next
    case False
    with Cons show ?thesis by simp
  qed
qed

lemma single_spaced_append:
  "single_spaced p (xs @ ys) \<Longrightarrow> single_spaced p xs \<and> single_spaced p ys"
proof (induction xs)
  case Nil
  then show ?case by simp
next
  case (Cons c cs)
  from Cons.prems have r: "single_spaced p (cs @ ys)"
    by (simp split: if_splits)
  note ih = Cons.IH [OF r]
  show ?case
  proof (cases "p c")
    case False
    with ih show ?thesis by simp
  next
    case True
    with Cons.prems have c: "c = 32"
      and h: "case cs @ ys of [] \<Rightarrow> True | d # ds \<Rightarrow> \<not> p d" by simp_all
    from h have "case cs of [] \<Rightarrow> True | d # ds \<Rightarrow> \<not> p d"
      by (cases cs) simp_all
    with True c ih show ?thesis by simp
  qed
qed

lemma rev_dropWhile_rev:
  "a = rev (dropWhile P (rev a)) @ rev (takeWhile P (rev a))"
proof -
  have "rev (takeWhile P (rev a) @ dropWhile P (rev a)) = a"
    by (simp only: takeWhile_dropWhile_id rev_rev_ident)
  then show ?thesis by (simp only: rev_append)
qed

lemma str_strip_sublist: "\<exists>pre post. s = pre @ str_strip L s @ post"
proof -
  define a where "a = dropWhile (isspace L) s"
  have 1: "s = takeWhile (isspace L) s @ a" by (simp add: a_def)
  have 2: "a = str_strip L s @ rev (takeWhile (isspace L) (rev a))"
    unfolding str_strip_def a_def by (rule rev_dropWhile_rev)
  from 1 2 have "s = takeWhile (isspace L) s @ str_strip L s @ rev (takeWhile (isspace L) (rev a))"
    by simp
  then show ?thesis by blast
qed

lemma str_strip_ends:
  "(case str_strip L s of [] \<Rightarrow> True | c # q \<Rightarrow> \<not> isspace L c)
   \<and> (case rev (str_strip L s) of [] \<Rightarrow> True | c # q \<Rightarrow> \<not> isspace L c)"
proof
  define a where "a = dropWhile (isspace L) s"
  have h: "case a of [] \<Rightarrow> True | c # q \<Rightarrow> \<not> isspace L c"
    unfolding a_def by (rule dropWhile_head)
  have 2: "a = str_strip L s @ rev (takeWhile (isspace L) (rev a))"
    unfolding str_strip_def a_def by (rule rev_dropWhile_rev)
  show "case str_strip L s of [] \<Rightarrow> True | c # q \<Rightarrow> \<not> isspace L c"
  proof (cases "str_strip L s")
    case Nil
    then show ?thesis by simp
  next
    case (Cons c q)
    with 2 have "a = c # q @ rev (takeWhile (isspace L) (rev a))" by simp
    then obtain r where "a = c # r" by blast
    with h have "\<not> isspace L c" by simp
    with Cons show ?thesis by simp
  qed
  have "rev (str_strip L s) = dropWhile (isspace L) (rev a)"
    by (simp add: str_strip_def a_def)
  then show "case rev (str_strip L s) of [] \<Rightarrow> True | c # q \<Rightarrow> \<not> isspace L c"
    by (simp only: dropWhile_head)
qed

lemma str_strip_id:
  assumes "case t of [] \<Rightarrow> True | c # q \<Rightarrow> \<not> isspace L c"
    and "case rev t of [] \<Rightarrow> True | c # q \<Rightarrow> \<not> isspace L c"
  shows "str_strip L t = t"
proof -
  have "dropWhile (isspace L) t = t" using assms(1) by (rule dropWhile_id)
  moreover have "dropWhile (isspace L) (rev t) = rev t" using assms(2) by (rule dropWhile_id)
  ultimately show ?thesis by (simp add: str_strip_def)
qed

lemma str_strip_fixed: "str_strip L (str_strip L s) = str_strip L s"
  by (rule str_strip_id)
     (rule str_strip_ends [THEN conjunct1], rule str_strip_ends [THEN conjunct2])

section \<open>Lemmas on the facet normalizer\<close>

lemma p_norm_fixed:
  assumes sp: "isspace L 32"
    and st: "str_lower L (nfkc L t) = t"
    and t: "t = p_norm L (PStr s)"
  shows "p_norm L (PStr t) = t"
proof -
  let ?pu = "\<lambda>c. \<not> isword L c \<and> \<not> isspace L c"
  define a where "a = re_sub_runs ?pu (str_lower L (nfkc L s))"
  define b where "b = re_sub_runs (isspace L) a"
  have tb: "t = str_strip L b"
    by (simp add: t a_def b_def Let_def)
  have "\<not> ?pu 32" using sp by simp
  then have ca: "\<forall>c \<in> set a. \<not> ?pu c"
    unfolding a_def by (rule re_sub_runs_clean)
  have "set b \<subseteq> insert 32 (set a)"
    unfolding b_def by (rule re_sub_runs_set)
  with ca sp have cb: "\<forall>c \<in> set b. \<not> ?pu c" by auto
  obtain pre post where pp: "b = pre @ t @ post"
    using str_strip_sublist [of b L] tb by blast
  then have "set t \<subseteq> set b" by auto
  with cb have "\<forall>c \<in> set t. \<not> ?pu c" by blast
  then have 1: "re_sub_runs ?pu t = t" by (rule re_sub_runs_none)
  have "single_spaced (isspace L) b"
    unfolding b_def using sp by (rule re_sub_runs_single_spaced)
  then have "single_spaced (isspace L) (t @ post)"
    unfolding pp by (rule single_spaced_append [THEN conjunct2])
  then have "single_spaced (isspace L) t"
    by (rule single_spaced_append [THEN conjunct1])
  then have 2: "re_sub_runs (isspace L) t = t" by (rule single_spaced_fixed)
  have 3: "str_strip L t = t"
    unfolding tb by (rule str_strip_fixed)
  show ?thesis
    by (simp add: st 1 2 3 Let_def)
qed

lemma ascii_lower_fixed: "\<forall>c \<in> set t. \<not> (65 \<le> c \<and> c \<le> 90) \<Longrightarrow> ascii_lower t = t"
  by (induction t) (auto simp: ascii_lower_def)

lemma ascii_lower_no_upper: "\<forall>c \<in> set (ascii_lower s). \<not> (65 \<le> c \<and> c \<le> 90)"
  by (auto simp: ascii_lower_def)

lemma p_norm_ascii_stable:
  "str_lower cpython_ascii (nfkc cpython_ascii (p_norm cpython_ascii (PStr s)))
     = p_norm cpython_ascii (PStr s)"
proof -
  let ?L = cpython_ascii
  let ?pu = "\<lambda>c. \<not> isword ?L c \<and> \<not> isspace ?L c"
  define u where "u = ascii_lower s"
  define a where "a = re_sub_runs ?pu u"
  define b where "b = re_sub_runs (isspace ?L) a"
  define t where "t = str_strip ?L b"
  have lo: "str_lower ?L = ascii_lower" and nf: "nfkc ?L x = x" for x
    by (simp_all add: cpython_ascii_def)
  have tt: "p_norm ?L (PStr s) = t"
    by (simp add: t_def b_def a_def u_def Let_def lo nf)
  have "set a \<subseteq> insert 32 (set u)" unfolding a_def by (rule re_sub_runs_set)
  moreover have "set b \<subseteq> insert 32 (set a)" unfolding b_def by (rule re_sub_runs_set)
  moreover obtain pre post where "b = pre @ t @ post"
    using str_strip_sublist [of b ?L] t_def by blast
  then have "set t \<subseteq> set b" by auto
  ultimately have "set t \<subseteq> insert 32 (set u)" by blast
  then have "\<forall>c \<in> set t. \<not> (65 \<le> c \<and> c \<le> 90)"
    using ascii_lower_no_upper [of s] unfolding u_def by auto
  then have "ascii_lower t = t" by (rule ascii_lower_fixed)
  then show ?thesis unfolding tt by (simp add: lo nf)
qed

lemma isspace_ascii_32: "isspace cpython_ascii 32"
  by (simp add: cpython_ascii_def ascii_isspace_def)

lemma p_norm_example:
  "p_norm cpython_ascii (PStr (ustr ''  Men's  & Women's -- Clothing_1!! ''))
     = ustr ''men s women s clothing_1''"
  by (simp add: cpython_ascii_def ascii_lower_def ascii_isword_def ascii_isspace_def
      ascii_isdigit_def str_strip_def ustr_def)

section \<open>Lemmas on the tokenizer and the row transformer\<close>

lemma list_comp_Inr:
  "list_comp f ts = Inr ys \<Longrightarrow> \<forall>y \<in> set ys. \<exists>t \<in> set ts. f t = Inr y"
proof (induction ts arbitrary: ys)
  case Nil
  then show ?case by simp
next
  case (Cons t ts)
  from Cons.prems obtain y ys' where y: "f t = Inr y" and r: "list_comp f ts = Inr ys'"
    and ys: "ys = y # ys'"
    by (auto split: sum.splits)
  from Cons.IH [OF r] y ys show ?case by auto
qed

lemma list_comp_Inl:
  "list_comp f ts = Inl e \<Longrightarrow> \<exists>t \<in> set ts. f t = Inl e"
proof (induction ts)
  case Nil
  then show ?case by simp
next
  case (Cons t ts)
  then show ?case by (auto split: sum.splits)
qed

lemma list_comp_total:
  "\<forall>t \<in> set ts. \<exists>y. f t = Inr y \<Longrightarrow> \<exists>ys. list_comp f ts = Inr ys"
proof (induction ts)
  case Nil
  show ?case by simp
next
  case (Cons t ts)
  then obtain y ys where "f t = Inr y" "list_comp f ts = Inr ys" by auto
  then show ?case by simp
qed

lemma build_terms_Inr:
  assumes "build_terms L x = Inr ts"
  shows "\<forall>t \<in> set ts. length t > 1 \<and> \<not> str_isdigit L t
           \<and> (\<exists>w \<in> set (str_split L (p_normalize L x)). w \<notin> STOP L \<and> stem L w = Inr t)"
proof -
  let ?ws = "filter (\<lambda>t. t \<notin> STOP L) (str_split L (p_normalize L x))"
  from assms obtain ys where ys: "list_comp (stem L) ?ws = Inr ys"
    and ts: "ts = filter (\<lambda>t. length t > 1 \<and> \<not> str_isdigit L t) ys"
    by (auto simp: build_terms_def Let_def split: sum.splits)
  from list_comp_Inr [OF ys] ts show ?thesis by auto
qed

lemma build_terms_Inl:
  assumes "build_terms L x = Inl e"
  shows "\<exists>w \<in> set (str_split L (p_normalize L x)). w \<notin> STOP L \<and> stem L w = Inl e"
proof -
  let ?ws = "filter (\<lambda>t. t \<notin> STOP L) (str_split L (p_normalize L x))"
  from assms have "list_comp (stem L) ?ws = Inl e"
    by (auto simp: build_terms_def Let_def split: sum.splits)
  from list_comp_Inl [OF this] show ?thesis by auto
qed

lemma build_terms_no_str: "\<not> is_str x \<Longrightarrow> build_terms L x = Inr []"
  by (cases x) (simp_all add: build_terms_def)

lemma build_terms_empty_ascii: "build_terms cpython_ascii (PStr []) = Inr []"
  by (simp add: build_terms_def str_strip_def cpython_ascii_def ascii_lower_def)

lemma fold_items:
  "fold (\<lambda>d items. case d of PDict kvs \<Rightarrow> items @ kvs | _ \<Rightarrow> items) ds acc
     = acc @ concat (map entries ds)"
proof (induction ds arbitrary: acc)
  case Nil
  show ?case by simp
next
  case (Cons d ds)
  show ?case by (cases d) (simp_all add: Cons.IH)
qed

lemma details_items_flat: "details_items lst = flat_pairs lst"
  by (cases lst) (simp_all add: details_items_def fold_items)

lemma details_loop_list_comp:
  "details_loop L I items out =
     (case list_comp (build_terms L)
             (concat (map (\<lambda>(k, v). [PStr k, PStr (py_str I v)]) items)) of
        Inl e \<Rightarrow> Inl e
      | Inr tss \<Rightarrow> Inr (out @ concat tss))"
proof (induction items arbitrary: out)
  case Nil
  show ?case by simp
next
  case (Cons kv items)
  obtain k v where kv: "kv = (k, v)" by (cases kv)
  show ?case
    unfolding kv by (simp add: Cons.IH split: sum.splits)
qed

lemma p_details_tokens_list_comp:
  "p_details_tokens L I lst =
     (case list_comp (build_terms L) (pair_texts I lst) of
        Inl e \<Rightarrow> Inl e
      | Inr tss \<Rightarrow> Inr (concat tss))"
  by (simp add: p_details_tokens_def details_loop_list_comp pair_texts_def
      details_items_flat split: sum.splits)


text \<open>What \<open>preprocess_row\<close> returns when it returns.\<close>

lemma preprocess_row_Inr:
  assumes "preprocess_row L I doc = Inr r"
  shows "\<exists>tt dt det sp ap df.
      build_terms L (get doc (ustr ''title'') (PStr [])) = Inr tt
    \<and> build_terms L (get doc (ustr ''description'') (PStr [])) = Inr dt
    \<and> p_details_tokens L I (get doc (ustr ''product_details'') (PList [])) = Inr det
    \<and> p_num L I (get doc (ustr ''selling_price'') PNone) = Inr sp
    \<and> p_num L I (get doc (ustr ''actual_price'') PNone) = Inr ap
    \<and> p_disc L I (get doc (ustr ''discount'') PNone) = Inr df
    \<and> r = [(ustr ''pid'', get doc (ustr ''pid'') PNone),
            (ustr ''title_raw'', get doc (ustr ''title'') (PStr [])),
            (ustr ''description_raw'', get doc (ustr ''description'') (PStr [])),
            (ustr ''product_details_raw'', get doc (ustr ''product_details'') (PDict [])),
            (ustr ''discount_raw'', get doc (ustr ''discount'') PNone),
            (ustr ''url'', get doc (ustr ''url'') (PStr [])),
            (ustr ''brand'', PStr (brand L (get doc (ustr ''brand'') (PStr [])))),
            (ustr ''category'', PStr (p_norm L (get doc (ustr ''category'') (PStr [])))),
            (ustr ''sub_category'',
               PStr (p_norm L (get doc (ustr ''sub_category'') (PStr [])))),
            (ustr ''seller'', PStr (p_norm L (get doc (ustr ''seller'') (PStr [])))),
            (ustr ''title_tokens'', tokens_val tt),
            (ustr ''desc_tokens'', tokens_val dt),
            (ustr ''details_tokens'', tokens_val det),
            (ustr ''out_of_stock'',
               PBool (py_bool (get doc (ustr ''out_of_stock'') (PBool False)))),
            (ustr ''selling_price'', sp),
            (ustr ''actual_price'', ap),
            (ustr ''discount_frac'', df),
            (ustr ''average_rating'',
               p_rating L I (get doc (ustr ''average_rating'') PNone))]"
  using assms by (simp add: preprocess_row_def Let_def split: sum.splits)


lemma preprocess_row_returns:
  assumes "build_terms L (get doc (ustr ''title'') (PStr [])) = Inr tt"
    and "build_terms L (get doc (ustr ''description'') (PStr [])) = Inr dt"
    and "p_details_tokens L I (get doc (ustr ''product_details'') (PList [])) = Inr det"
  shows "\<exists>r. preprocess_row L I doc = Inr r"
proof -
  from p_num_Inr [of L I "get doc (ustr ''selling_price'') PNone"]
    p_num_Inr [of L I "get doc (ustr ''actual_price'') PNone"]
    p_disc_Inr [of L I "get doc (ustr ''discount'') PNone"]
  obtain sp ap df where n: "p_num L I (get doc (ustr ''selling_price'') PNone) = Inr sp"
    "p_num L I (get doc (ustr ''actual_price'') PNone) = Inr ap"
    "p_disc L I (get doc (ustr ''discount'') PNone) = Inr df" by blast
  with assms show ?thesis
    by (simp add: preprocess_row_def Let_def)
qed

lemma field_out_of_stock:
  "preprocess_row L I doc = Inr r \<Longrightarrow>
   map_of r (ustr ''out_of_stock'')
     = Some (PBool (py_bool (get doc (ustr ''out_of_stock'') (PBool False))))"
  by (drule preprocess_row_Inr) (auto simp: ustr_eq_iff)

lemma field_brand:
  "preprocess_row L I doc = Inr r \<Longrightarrow>
   map_of r (ustr ''brand'') = Some (PStr (brand L (get doc (ustr ''brand'') (PStr []))))"
  by (drule preprocess_row_Inr) (auto simp: ustr_eq_iff)

lemma field_discount_frac:
  "preprocess_row L I doc = Inr r \<Longrightarrow>
   p_disc L I (get doc (ustr ''discount'') PNone) = Inr df \<Longrightarrow>
   map_of r (ustr ''discount_frac'') = Some df"
  by (drule preprocess_row_Inr) (auto simp: ustr_eq_iff)


section \<open>The stemmer on a long run of one letter\<close>

text \<open>A word that is a run of \<open>y\<close> (code point 121), longer than the recursion limit.\<close>

lemma is_consonant_from_yrun:
  "i < n \<Longrightarrow> recursion_limit \<le> k + i \<Longrightarrow> is_consonant_from k (replicate n 121) i = None"
proof (induction i arbitrary: k)
  case 0
  then show ?case by simp
next
  case (Suc i)
  have y: "replicate n 121 ! Suc i = (121::nat)" using Suc.prems(1) by simp
  have nv: "(121::nat) \<notin> vowels" by (simp add: vowels_def ustr_def)
  show ?case
  proof (cases "recursion_limit \<le> k")
    case True
    then show ?thesis by simp
  next
    case False
    have "is_consonant_from (Suc k) (replicate n 121) i = None"
      using Suc.prems by (intro Suc.IH) simp_all
    with False y nv show ?thesis by (simp add: ustr_def)
  qed
qed

lemma endswith_last:
  assumes "endswith w suf" "suf \<noteq> []"
  shows "last w = last suf"
proof -
  from assms have "drop (length w - length suf) w = suf" by (simp add: endswith_def)
  with assms(2) show ?thesis by (metis last_drop drop_eq_Nil not_le)
qed

lemma yrun_not_endswith:
  assumes "suf \<noteq> []" "last suf \<noteq> 121" "0 < n"
  shows "\<not> endswith (replicate n 121) suf"
proof
  assume "endswith (replicate n 121) suf"
  from endswith_last [OF this assms(1)] assms(3) have "last suf = 121" by simp
  with assms(2) show False by simp
qed

lemma yrun_endswith_y:
  assumes "0 < n"
  shows "endswith (replicate n 121) (ustr ''y'')"
proof -
  have "n - (n - 1) = 1" using assms by simp
  then have "drop (n - 1) (replicate n (121::nat)) = [121]" by simp
  with assms show ?thesis by (simp add: endswith_def ustr_def)
qed

lemma step1a_yrun: "4 < n \<Longrightarrow> step1a (replicate n 121) = Some (replicate n 121)"
  by (simp add: step1a_def yrun_not_endswith ustr_def)

lemma step1b_yrun: "4 < n \<Longrightarrow> step1b (replicate n 121) = Some (replicate n 121)"
  by (simp add: step1b_def yrun_not_endswith ustr_def)

lemma step1c_yrun:
  assumes "recursion_limit + 1 < n"
  shows "step1c (replicate n 121) = None"
proof -
  have n: "0 < n" "1 < n - 1" "n - 1 - 1 < n - 1" "recursion_limit \<le> 0 + (n - 1 - 1)"
    using assms by (simp_all add: recursion_limit_def)
  have r: "replace_suffix (replicate n 121) (ustr ''y'') [] = replicate (n - 1) 121"
    by (simp add: replace_suffix_def ustr_def)
  have "is_consonant (replicate (n - 1) 121) (n - 1 - 1) = None"
    unfolding is_consonant_def using n(3,4) by (rule is_consonant_from_yrun)
  with n(1,2) show ?thesis
    by (simp add: step1c_def yrun_endswith_y r holds_def) (simp add: ustr_def)
qed

lemma pool_keys_short: "\<forall>k \<in> fst ` set pool. length k \<le> 8"
  by (simp add: pool_def ustr_def)

lemma porter_stem_yrun:
  assumes "recursion_limit + 1 < n"
  shows "porter_stem (replicate n 121) = None"
proof -
  have n: "8 < n" "4 < n" "\<not> n \<le> 2" using assms by (simp_all add: recursion_limit_def)
  have "replicate n 121 \<notin> fst ` set pool"
    using pool_keys_short n(1) by fastforce
  then have p: "map_of pool (replicate n 121) = None"
    by (simp add: map_of_eq_None_iff)
  have l: "ascii_lower (replicate n 121) = replicate n 121"
    by (simp add: ascii_lower_def)
  show ?thesis
    using n(3) by (simp add: porter_stem_def p l step1a_yrun step1b_yrun n(2)
        step1c_yrun [OF assms])
qed

lemma str_split_word:
  assumes "w \<noteq> []" "\<forall>c \<in> set w. \<not> isspace L c"
  shows "str_split L w = [w]"
proof (cases w)
  case Nil
  with assms show ?thesis by simp
next
  case (Cons c cs)
  with assms(2) have nc: "\<not> isspace L c"
    and t: "takeWhile (\<lambda>x. \<not> isspace L x) cs = cs"
    and d: "dropWhile (\<lambda>x. \<not> isspace L x) cs = []"
    by simp_all
  show ?thesis unfolding Cons by (simp only: str_split.simps nc t d if_False)
qed

lemma stopwords_short: "\<forall>w \<in> set nltk_stopwords. length w \<le> 10"
  by (simp add: nltk_stopwords_def ustr_def)

lemma p_normalize_yrun:
  assumes "0 < n"
  shows "p_normalize cpython_ascii (PStr (replicate n 121)) = replicate n 121"
proof -
  let ?w = "replicate n 121"
  have w: "isword cpython_ascii 121" "\<not> isspace cpython_ascii 121"
    by (simp_all add: cpython_ascii_def ascii_isword_def ascii_isspace_def)
  have 1: "re_sub_runs (PUNCT cpython_ascii) ?w = ?w"
    by (rule re_sub_runs_none) (simp add: PUNCT_def w)
  have 2: "re_sub_runs (isspace cpython_ascii) ?w = ?w"
    by (rule re_sub_runs_none) (simp add: w)
  have "dropWhile (isspace cpython_ascii) ?w = ?w"
    using assms w(2) by (cases n) simp_all
  moreover have "rev ?w = ?w" by simp
  ultimately have 3: "str_strip cpython_ascii ?w = ?w"
    by (simp add: str_strip_def)
  have l: "str_lower cpython_ascii (nfkc cpython_ascii ?w) = ?w"
    by (simp add: cpython_ascii_def ascii_lower_def)
  show ?thesis by (simp add: l 1 2 3 Let_def)
qed

lemma build_terms_yrun:
  assumes "recursion_limit + 1 < n"
  shows "build_terms cpython_ascii (PStr (replicate n 121)) = Inl RecursionError"
proof -
  let ?w = "replicate n 121"
  have n: "0 < n" "10 < n" using assms by (simp_all add: recursion_limit_def)
  have w: "\<not> isspace cpython_ascii 121"
    by (simp add: cpython_ascii_def ascii_isspace_def)
  have s: "str_split cpython_ascii ?w = [?w]"
    using n(1) w by (intro str_split_word) auto
  have "?w \<notin> set nltk_stopwords"
    using stopwords_short n(2) by fastforce
  then have st: "?w \<notin> STOP cpython_ascii" by (simp add: cpython_ascii_def)
  have "stem cpython_ascii ?w = Inl RecursionError"
    by (simp add: cpython_ascii_def nltk_stem_def porter_stem_yrun [OF assms])
  with s st show ?thesis
    by (simp add: build_terms_def p_normalize_yrun [OF n(1)] Let_def
        del: p_normalize.simps)
qed


section \<open>Lemmas on the words of a text\<close>

lemma word_runs_dropWhile_other:
  "(\<And>c. q c \<Longrightarrow> \<not> p c) \<Longrightarrow> word_runs p (dropWhile q s) = word_runs p s"
  by (induction s) auto

lemma filter_takeWhile_same: "filter p (takeWhile p cs) = takeWhile p cs"
  by (induction cs) auto

lemma word_runs_none: "\<forall>c \<in> set s. \<not> p c \<Longrightarrow> word_runs p s = []"
  by (induction s) auto

lemma concat_word_runs: "concat (word_runs p s) = filter p s"
proof (induction p s rule: word_runs.induct)
  case (1 p)
  show ?case by simp
next
  case (2 p c cs)
  show ?case
  proof (cases "p c")
    case True
    have "filter p cs = filter p (takeWhile p cs @ dropWhile p cs)" by simp
    also have "\<dots> = takeWhile p cs @ filter p (dropWhile p cs)"
      by (simp only: filter_append filter_takeWhile_same)
    finally show ?thesis using True 2(1) by simp
  next
    case False
    with 2(2) show ?thesis by simp
  qed
qed

lemma takeWhile_re_sub_runs:
  assumes "\<forall>c. q c \<longrightarrow> \<not> p c" "\<not> p 32"
  shows "takeWhile p (re_sub_runs q s) = takeWhile p s"
proof (induction s)
  case Nil
  show ?case by simp
next
  case (Cons c cs)
  with assms show ?case by auto
qed

lemma dropWhile_re_sub_runs:
  assumes "\<forall>c. q c \<longrightarrow> \<not> p c" "\<not> p 32"
  shows "dropWhile p (re_sub_runs q s) = re_sub_runs q (dropWhile p s)"
proof (induction s)
  case Nil
  show ?case by simp
next
  case (Cons c cs)
  with assms show ?case by auto
qed

lemma word_runs_re_sub_runs:
  assumes q: "\<forall>c. q c \<longrightarrow> \<not> p c" and sp: "\<not> p 32"
  shows "word_runs p (re_sub_runs q s) = word_runs p s"
proof (induction s rule: length_induct)
  case (1 s)
  show ?case
  proof (cases s)
    case Nil
    then show ?thesis by simp
  next
    case (Cons c cs)
    show ?thesis
    proof (cases "q c")
      case True
      have l: "length (dropWhile q cs) < length s"
        using Cons length_dropWhile_le [of q cs] by simp
      have "word_runs p (re_sub_runs q (dropWhile q cs)) = word_runs p (dropWhile q cs)"
        using 1 l by blast
      also have "\<dots> = word_runs p cs"
        using q by (intro word_runs_dropWhile_other) simp
      finally show ?thesis using True q sp Cons by simp
    next
      case False
      note nq = False
      show ?thesis
      proof (cases "p c")
        case True
        have l: "length (dropWhile p cs) < length s"
          using Cons length_dropWhile_le [of p cs] by simp
        have "word_runs p (re_sub_runs q (dropWhile p cs)) = word_runs p (dropWhile p cs)"
          using 1 l by blast
        with True nq Cons show ?thesis
          using takeWhile_re_sub_runs [of q p cs, OF q sp]
            dropWhile_re_sub_runs [of q p cs, OF q sp] q
          by simp
      next
        case False
        have "word_runs p (re_sub_runs q cs) = word_runs p cs"
          using 1 Cons by simp
        with False nq Cons show ?thesis by simp
      qed
    qed
  qed
qed

lemma takeWhile_dropWhile_append:
  assumes "case ys of [] \<Rightarrow> True | d # ds \<Rightarrow> \<not> p d"
  shows "takeWhile p (cs @ ys) = takeWhile p cs"
    and "dropWhile p (cs @ ys) = dropWhile p cs @ ys"
proof -
  have a: "takeWhile p ys = []" "dropWhile p ys = ys"
    using assms by (cases ys; simp)+
  show "takeWhile p (cs @ ys) = takeWhile p cs"
    by (induction cs) (simp_all add: a)
  show "dropWhile p (cs @ ys) = dropWhile p cs @ ys"
    by (induction cs) (simp_all add: a)
qed

lemma word_runs_append_other:
  assumes "\<forall>c \<in> set ys. \<not> p c"
  shows "word_runs p (xs @ ys) = word_runs p xs"
proof (induction xs rule: length_induct)
  case (1 xs)
  show ?case
  proof (cases xs)
    case Nil
    have "word_runs p ys = []" using assms by (rule word_runs_none)
    with Nil show ?thesis by simp
  next
    case (Cons c cs)
    show ?thesis
    proof (cases "p c")
      case False
      have "word_runs p (cs @ ys) = word_runs p cs" using 1 Cons by simp
      with False Cons show ?thesis by simp
    next
      case True
      have h: "case ys of [] \<Rightarrow> True | d # ds \<Rightarrow> \<not> p d"
        using assms by (cases ys) simp_all
      note t = takeWhile_dropWhile_append(1) [OF h, of cs]
      note d = takeWhile_dropWhile_append(2) [OF h, of cs]
      have l: "length (dropWhile p cs) < length xs"
        using Cons length_dropWhile_le [of p cs] by simp
      have "word_runs p (dropWhile p cs @ ys) = word_runs p (dropWhile p cs)"
        using 1 l by blast
      with True Cons t d show ?thesis by simp
    qed
  qed
qed

lemma word_runs_str_strip:
  assumes "\<And>c. isspace L c \<Longrightarrow> \<not> p c"
  shows "word_runs p (str_strip L s) = word_runs p s"
proof -
  define a where "a = dropWhile (isspace L) s"
  have 2: "a = str_strip L s @ rev (takeWhile (isspace L) (rev a))"
    unfolding str_strip_def a_def by (rule rev_dropWhile_rev)
  have "\<forall>c \<in> set (rev (takeWhile (isspace L) (rev a))). \<not> p c"
    using assms by (auto dest: set_takeWhileD)
  then have "word_runs p (str_strip L s @ rev (takeWhile (isspace L) (rev a)))
      = word_runs p (str_strip L s)"
    by (rule word_runs_append_other)
  with 2 have "word_runs p (str_strip L s) = word_runs p a" by simp
  also have "\<dots> = word_runs p s"
    unfolding a_def using assms by (rule word_runs_dropWhile_other)
  finally show ?thesis .
qed

lemma single_spaced_32: "single_spaced p s \<Longrightarrow> \<forall>c \<in> set s. p c \<longrightarrow> c = 32"
  by (induction s) (auto split: if_splits)

section \<open>Lemmas on idempotence\<close>

lemma p_norm_words:
  assumes sp: "isspace L 32" and dj: "\<forall>c. isspace L c \<longrightarrow> \<not> isword L c"
  shows "word_runs (isword L) (p_norm L (PStr s))
           = word_runs (isword L) (str_lower L (nfkc L s))"
    and "\<forall>c \<in> set (p_norm L (PStr s)). isword L c \<or> c = 32"
proof -
  let ?pu = "\<lambda>c. \<not> isword L c \<and> \<not> isspace L c"
  define u where "u = str_lower L (nfkc L s)"
  define a where "a = re_sub_runs ?pu u"
  define b where "b = re_sub_runs (isspace L) a"
  have t: "p_norm L (PStr s) = str_strip L b"
    by (simp add: u_def a_def b_def Let_def)
  have n32: "\<not> isword L 32" using sp dj by blast
  have 1: "word_runs (isword L) a = word_runs (isword L) u"
    unfolding a_def using n32 by (intro word_runs_re_sub_runs) simp_all
  have 2: "word_runs (isword L) b = word_runs (isword L) a"
    unfolding b_def using n32 dj by (intro word_runs_re_sub_runs) simp_all
  have 3: "word_runs (isword L) (str_strip L b) = word_runs (isword L) b"
    using dj by (intro word_runs_str_strip) simp
  show "word_runs (isword L) (p_norm L (PStr s))
           = word_runs (isword L) (str_lower L (nfkc L s))"
    by (simp only: t 1 2 3 u_def)
  have "\<not> ?pu 32" using sp by simp
  then have ca: "\<forall>c \<in> set a. \<not> ?pu c"
    unfolding a_def by (rule re_sub_runs_clean)
  have "set b \<subseteq> insert 32 (set a)"
    unfolding b_def by (rule re_sub_runs_set)
  with ca sp have cb: "\<forall>c \<in> set b. isword L c \<or> isspace L c" by auto
  have "single_spaced (isspace L) b"
    unfolding b_def using sp by (rule re_sub_runs_single_spaced)
  then have "\<forall>c \<in> set b. isspace L c \<longrightarrow> c = 32" by (rule single_spaced_32)
  with cb have wb: "\<forall>c \<in> set b. isword L c \<or> c = 32" by blast
  obtain pre post where "b = pre @ str_strip L b @ post"
    using str_strip_sublist [of b L] by blast
  then have "set (str_strip L b) \<subseteq> set b" by (metis Un_upper1 Un_upper2 set_append subset_trans)
  with wb show "\<forall>c \<in> set (p_norm L (PStr s)). isword L c \<or> c = 32"
    unfolding t by blast
qed

lemma p_norm_idem:
  assumes "unicode_facts L"
  shows "p_norm L (PStr (p_norm L (PStr s))) = p_norm L (PStr s)"
proof -
  from assms have sp: "isspace L 32" and dj: "\<forall>c. isspace L c \<longrightarrow> \<not> isword L c"
    and st: "\<And>s v. word_runs (isword L) v = word_runs (isword L) (str_lower L (nfkc L s))
                 \<Longrightarrow> \<forall>c \<in> set v. isword L c \<or> c = 32
                 \<Longrightarrow> str_lower L (nfkc L v) = v"
    unfolding unicode_facts_def by blast+
  have "str_lower L (nfkc L (p_norm L (PStr s))) = p_norm L (PStr s)"
    using p_norm_words [OF sp dj, of s] by (intro st)
  with sp show ?thesis
    by (intro p_norm_fixed [of L _ s]) simp_all
qed

lemma unicode_facts_ascii: "unicode_facts cpython_ascii"
proof -
  let ?L = cpython_ascii
  have lo: "str_lower ?L = ascii_lower" and nf: "nfkc ?L x = x" for x
    by (simp_all add: cpython_ascii_def)
  have dj: "\<forall>c. isspace ?L c \<longrightarrow> \<not> isword ?L c"
    by (auto simp: cpython_ascii_def ascii_isspace_def ascii_isword_def ascii_isdigit_def)
  have st: "str_lower ?L (nfkc ?L v) = v"
    if w: "word_runs (isword ?L) v = word_runs (isword ?L) (str_lower ?L (nfkc ?L s))"
      and c: "\<forall>c \<in> set v. isword ?L c \<or> c = 32" for s v
  proof -
    from w have "filter (isword ?L) v = filter (isword ?L) (ascii_lower s)"
      by (simp only: concat_word_runs [symmetric] lo nf)
    then have "set (filter (isword ?L) v) \<subseteq> set (ascii_lower s)"
      by (metis filter_is_subset)
    with ascii_lower_no_upper [of s]
    have "\<forall>c \<in> set v. isword ?L c \<longrightarrow> \<not> (65 \<le> c \<and> c \<le> 90)" by auto
    with c have "\<forall>c \<in> set v. \<not> (65 \<le> c \<and> c \<le> 90)" by auto
    then have "ascii_lower v = v" by (rule ascii_lower_fixed)
    then show ?thesis by (simp add: lo nf)
  qed
  show ?thesis
    unfolding unicode_facts_def using isspace_ascii_32 dj st by blast
qed

section \<open>Lemmas on concrete records\<close>

lemma p_details_tokens_empty: "p_details_tokens L I (PList []) = Inr []"
  by (simp add: p_details_tokens_def details_items_def)

text \<open>A record without text fields: \<open>preprocess_row\<close> returns on it.\<close>

lemma preprocess_row_returns_ascii:
  assumes "map_of doc (ustr ''title'') = None" "map_of doc (ustr ''description'') = None"
    "map_of doc (ustr ''product_details'') = None"
  shows "\<exists>r. preprocess_row cpython_ascii I doc = Inr r"
  using assms
  by (intro preprocess_row_returns [of _ _ "[]" "[]" _ "[]"])
     (simp_all add: get_def build_terms_empty_ascii p_details_tokens_empty)

lemma build_terms_material:
  "build_terms cpython_ascii (PStr (ustr ''Material'')) = Inr [ustr ''materi'']"
  "build_terms cpython_ascii (PStr (ustr ''Cotton'')) = Inr [ustr ''cotton'']"
  "build_terms cpython_ascii (PStr (ustr ''Fit'')) = Inr [ustr ''fit'']"
  "build_terms cpython_ascii (PStr (ustr ''Slim Fit'')) = Inr [ustr ''slim'', ustr ''fit'']"
  by code_simp+

section \<open>The claims\<close>

text \<open>
  C1, as stated, fails: the stopwords are removed before the stemmer runs, and a stem
  can be a stopword.  \<open>owned\<close> is not a stopword; the stemmer turns it into \<open>own\<close>, which
  is one, and \<open>build_terms\<close> returns it.
\<close>

theorem build_terms_stopword_counterexample:
  "build_terms cpython_ascii (PStr (ustr ''owned'')) = Inr [ustr ''own'']
   \<and> ustr ''own'' \<in> STOP cpython_ascii"
  by code_simp

text \<open>
  C1, amended.  For every input, every token that \<open>build_terms\<close> returns is longer than
  one character, is not made of digits only, and is the stem of a word of the
  normalized text that is not a stopword.  (When \<open>build_terms\<close> does not return, it is
  because the stemmer raised on such a word.)
\<close>

theorem build_terms_tokens:
  "(build_terms L x = Inr ts \<longrightarrow>
      (\<forall>t \<in> set ts.
         length t > 1 \<and> \<not> str_isdigit L t
         \<and> (\<exists>w \<in> set (str_split L (p_normalize L x)). w \<notin> STOP L \<and> stem L w = Inr t)))
   \<and> (build_terms L x = Inl e \<longrightarrow>
      (\<exists>w \<in> set (str_split L (p_normalize L x)). w \<notin> STOP L \<and> stem L w = Inl e))"
  using build_terms_Inr [of L x ts] build_terms_Inl [of L x e] by blast

theorem build_terms_tokens_witness:
  "build_terms cpython_ascii (PStr (ustr ''red red shoes''))
     = Inr [ustr ''red'', ustr ''red'', ustr ''shoe'']
   \<and> length (ustr ''shoe'') > 1 \<and> \<not> str_isdigit cpython_ascii (ustr ''shoe'')
   \<and> (\<exists>w \<in> set (str_split cpython_ascii
                    (p_normalize cpython_ascii (PStr (ustr ''red red shoes'')))).
          w \<notin> STOP cpython_ascii \<and> stem cpython_ascii w = Inr (ustr ''shoe''))
   \<and> build_terms cpython_ascii (PStr (replicate 1100 121)) = Inl RecursionError
   \<and> (\<exists>w \<in> set (str_split cpython_ascii
                    (p_normalize cpython_ascii (PStr (replicate 1100 121)))).
          w \<notin> STOP cpython_ascii \<and> stem cpython_ascii w = Inl RecursionError)"
proof -
  have m: "build_terms cpython_ascii (PStr (ustr ''red red shoes''))
     = Inr [ustr ''red'', ustr ''red'', ustr ''shoe'']"
    by code_simp
  have "recursion_limit + 1 < 1100" by (simp add: recursion_limit_def)
  then have y: "build_terms cpython_ascii (PStr (replicate 1100 121)) = Inl RecursionError"
    by (rule build_terms_yrun)
  from m build_terms_tokens [of cpython_ascii "PStr (ustr ''red red shoes'')"
      "[ustr ''red'', ustr ''red'', ustr ''shoe'']" RecursionError]
  have a: "length (ustr ''shoe'') > 1 \<and> \<not> str_isdigit cpython_ascii (ustr ''shoe'')
   \<and> (\<exists>w \<in> set (str_split cpython_ascii
                    (p_normalize cpython_ascii (PStr (ustr ''red red shoes'')))).
          w \<notin> STOP cpython_ascii \<and> stem cpython_ascii w = Inr (ustr ''shoe''))"
    by simp
  from y build_terms_tokens [of cpython_ascii "PStr (replicate 1100 121)" "[]" RecursionError]
  have b: "\<exists>w \<in> set (str_split cpython_ascii
                    (p_normalize cpython_ascii (PStr (replicate 1100 121)))).
          w \<notin> STOP cpython_ascii \<and> stem cpython_ascii w = Inl RecursionError"
    by blast
  from m y a b show ?thesis by blast
qed



text \<open>
  C3.  The claim bounds \<open>discount_frac\<close> by 1, and so does the docstring of \<open>_disc\<close> ("float in
  [0,1] or None"); the code divides the first number of the text by 100 and checks
  nothing.  For the raw discount \<open>150% off\<close> it returns 1.5, and \<open>preprocess_row\<close> stores it.
\<close>

theorem discount_frac_above_one:
  "p_disc cpython_ascii I (PStr (ustr ''150% off'')) = Inr (PFloat 1.5)
   \<and> field (preprocess_row cpython_ascii I [(ustr ''discount'', PStr (ustr ''150% off''))])
        (ustr ''discount_frac'') = Some (PFloat 1.5)
   \<and> \<not> ((1.5::real) \<le> 1)"
proof -
  let ?d = "[(ustr ''discount'', PStr (ustr ''150% off''))]"
  have g: "get ?d (ustr ''discount'') PNone = PStr (ustr ''150% off'')"
    by (simp add: get_def)
  obtain r where r: "preprocess_row cpython_ascii I ?d = Inr r"
    using preprocess_row_returns_ascii [of ?d I] by (auto simp: ustr_eq_iff)
  from field_discount_frac [OF r, of "PFloat 1.5"] g p_disc_150 [of I]
  have "map_of r (ustr ''discount_frac'') = Some (PFloat 1.5)" by simp
  with r p_disc_150 [of I] show ?thesis by (simp add: field_def)
qed

text \<open>
  C4.  \<open>_num\<close> maps \<open>None\<close> to \<open>None\<close>.  For any other value it takes the string form without
  its commas; when that text has no digit the result is \<open>None\<close>; otherwise the text is
  \<open>pre @ m @ post\<close> with no digit in \<open>pre\<close> and \<open>m\<close> the first numeral (digits, or digits, a
  point and digits, not continued by \<open>post\<close>), and the result is the value of \<open>m\<close> as a
  float.  The three examples of the specification follow.
\<close>

theorem p_num_first_numeral:
  "p_num L I PNone = Inr PNone
   \<and> (x \<noteq> PNone \<and> (\<forall>c \<in> set (filter (\<lambda>c. c \<noteq> 44) (py_str I x)). \<not> isdec L c)
        \<longrightarrow> p_num L I x = Inr PNone)
   \<and> (x \<noteq> PNone \<and> (\<exists>c \<in> set (filter (\<lambda>c. c \<noteq> 44) (py_str I x)). isdec L c)
        \<longrightarrow> (\<exists>pre m post v. filter (\<lambda>c. c \<noteq> 44) (py_str I x) = pre @ m @ post
               \<and> (\<forall>c \<in> set pre. \<not> isdec L c) \<and> first_numeral L m post v
               \<and> p_num L I x = Inr (PFloat v)))
   \<and> p_num cpython_ascii I (PStr (ustr ''1,299'')) = Inr (PFloat 1299)
   \<and> p_num cpython_ascii I (PStr (ustr ''Rs. 499.50 only'')) = Inr (PFloat 499.5)
   \<and> p_num cpython_ascii I (PStr (ustr ''no price'')) = Inr PNone"
  using p_num_None [of L I] p_num_no_digit [of x I L] p_num_digit [of x I L]
    p_num_1299 [of I] p_num_499 [of I] p_num_no_price [of I]
  by (intro conjI impI) (simp_all only: , blast+)

theorem p_num_first_numeral_witness:
  "\<forall>I.
     PStr (ustr ''no price'') \<noteq> PNone
     \<and> \<not> (\<exists>c \<in> set (filter (\<lambda>c. c \<noteq> 44) (py_str I (PStr (ustr ''no price'')))).
              isdec cpython_ascii c)
     \<and> p_num cpython_ascii I (PStr (ustr ''no price'')) = Inr PNone
     \<and> PStr (ustr ''Rs. 499.50 only'') \<noteq> PNone
     \<and> (\<exists>c \<in> set (filter (\<lambda>c. c \<noteq> 44) (py_str I (PStr (ustr ''Rs. 499.50 only'')))).
              isdec cpython_ascii c)
     \<and> (\<exists>pre m post v.
            filter (\<lambda>c. c \<noteq> 44) (py_str I (PStr (ustr ''Rs. 499.50 only''))) = pre @ m @ post
            \<and> (\<forall>c \<in> set pre. \<not> isdec cpython_ascii c)
            \<and> first_numeral cpython_ascii m post v
            \<and> p_num cpython_ascii I (PStr (ustr ''Rs. 499.50 only'')) = Inr (PFloat v))"
proof
  fix I
  have a: "\<forall>c \<in> set (filter (\<lambda>c. c \<noteq> 44) (py_str I (PStr (ustr ''no price'')))).
              \<not> isdec cpython_ascii c"
    by (simp add: ustr_def)
  have b: "\<exists>c \<in> set (filter (\<lambda>c. c \<noteq> 44) (py_str I (PStr (ustr ''Rs. 499.50 only'')))).
              isdec cpython_ascii c"
    by (simp add: ustr_def)
  have c: "PStr (ustr ''no price'') \<noteq> PNone" "PStr (ustr ''Rs. 499.50 only'') \<noteq> PNone"
    by simp_all
  from p_num_first_numeral [of cpython_ascii I "PStr (ustr ''no price'')"] a c(1)
  have d: "p_num cpython_ascii I (PStr (ustr ''no price'')) = Inr PNone"
    by blast
  from p_num_first_numeral [of cpython_ascii I "PStr (ustr ''Rs. 499.50 only'')"] b c(2)
  have e: "\<exists>pre m post v.
            filter (\<lambda>c. c \<noteq> 44) (py_str I (PStr (ustr ''Rs. 499.50 only''))) = pre @ m @ post
            \<and> (\<forall>c \<in> set pre. \<not> isdec cpython_ascii c)
            \<and> first_numeral cpython_ascii m post v
            \<and> p_num cpython_ascii I (PStr (ustr ''Rs. 499.50 only'')) = Inr (PFloat v)"
    by blast
  from a b c d e
  show "PStr (ustr ''no price'') \<noteq> PNone
     \<and> \<not> (\<exists>c \<in> set (filter (\<lambda>c. c \<noteq> 44) (py_str I (PStr (ustr ''no price'')))).
              isdec cpython_ascii c)
     \<and> p_num cpython_ascii I (PStr (ustr ''no price'')) = Inr PNone
     \<and> PStr (ustr ''Rs. 499.50 only'') \<noteq> PNone
     \<and> (\<exists>c \<in> set (filter (\<lambda>c. c \<noteq> 44) (py_str I (PStr (ustr ''Rs. 499.50 only'')))).
              isdec cpython_ascii c)
     \<and> (\<exists>pre m post v.
            filter (\<lambda>c. c \<noteq> 44) (py_str I (PStr (ustr ''Rs. 499.50 only''))) = pre @ m @ post
            \<and> (\<forall>c \<in> set pre. \<not> isdec cpython_ascii c)
            \<and> first_numeral cpython_ascii m post v
            \<and> p_num cpython_ascii I (PStr (ustr ''Rs. 499.50 only'')) = Inr (PFloat v))"
    by blast
qed

text \<open>
  C5.  \<open>_details_tokens\<close> tokenizes, for the pairs of \<open>product_details\<close> flattened as the
  specification says (the entries of a mapping; for a sequence the entries of each
  mapping in it, other elements skipped; nothing otherwise) and in that order, the key
  and then the string form of the value, and returns all the tokens in that order; when
  a call of the tokenizer raises, the first exception raised is the outcome.  The example
  of the specification follows, for every library and then on the ASCII libraries, then a
  sequence with elements that are not mappings, then two inputs that are neither a
  mapping nor a sequence.
\<close>

theorem details_tokens_pairs:
  "p_details_tokens L I lst
     = (case list_comp (build_terms L) (pair_texts I lst) of
          Inl e \<Rightarrow> Inl e
        | Inr tss \<Rightarrow> Inr (concat tss))
   \<and> pair_texts I lst
     = concat (map (\<lambda>(k, v). [PStr k, PStr (py_str I v)]) (flat_pairs lst))
   \<and> p_details_tokens L I
        (PList [PDict [(ustr ''Material'', PStr (ustr ''Cotton''))],
                PDict [(ustr ''Fit'', PStr (ustr ''Slim Fit''))]])
     = (case list_comp (build_terms L)
               [PStr (ustr ''Material''), PStr (ustr ''Cotton''),
                PStr (ustr ''Fit''), PStr (ustr ''Slim Fit'')] of
          Inl e \<Rightarrow> Inl e
        | Inr tss \<Rightarrow> Inr (concat tss))
   \<and> p_details_tokens cpython_ascii I
        (PList [PDict [(ustr ''Material'', PStr (ustr ''Cotton''))],
                PDict [(ustr ''Fit'', PStr (ustr ''Slim Fit''))]])
     = Inr [ustr ''materi'', ustr ''cotton'', ustr ''fit'', ustr ''slim'', ustr ''fit'']
   \<and> p_details_tokens L I
        (PList [PDict [(k1, v1)], PInt 7, PStr s, PDict [(k2, v2), (k3, v3)]])
     = (case list_comp (build_terms L)
               [PStr k1, PStr (py_str I v1), PStr k2, PStr (py_str I v2),
                PStr k3, PStr (py_str I v3)] of
          Inl e \<Rightarrow> Inl e
        | Inr tss \<Rightarrow> Inr (concat tss))
   \<and> p_details_tokens L I PNone = Inr []
   \<and> p_details_tokens L I (PStr s) = Inr []"
proof (intro conjI)
  show "p_details_tokens L I lst
     = (case list_comp (build_terms L) (pair_texts I lst) of
          Inl e \<Rightarrow> Inl e
        | Inr tss \<Rightarrow> Inr (concat tss))"
    by (rule p_details_tokens_list_comp)
  show "pair_texts I lst
     = concat (map (\<lambda>(k, v). [PStr k, PStr (py_str I v)]) (flat_pairs lst))"
    by (rule pair_texts_def)
  show "p_details_tokens L I
        (PList [PDict [(ustr ''Material'', PStr (ustr ''Cotton''))],
                PDict [(ustr ''Fit'', PStr (ustr ''Slim Fit''))]])
     = (case list_comp (build_terms L)
               [PStr (ustr ''Material''), PStr (ustr ''Cotton''),
                PStr (ustr ''Fit''), PStr (ustr ''Slim Fit'')] of
          Inl e \<Rightarrow> Inl e
        | Inr tss \<Rightarrow> Inr (concat tss))"
    unfolding p_details_tokens_list_comp by (simp add: pair_texts_def)
  show "p_details_tokens cpython_ascii I
        (PList [PDict [(ustr ''Material'', PStr (ustr ''Cotton''))],
                PDict [(ustr ''Fit'', PStr (ustr ''Slim Fit''))]])
     = Inr [ustr ''materi'', ustr ''cotton'', ustr ''fit'', ustr ''slim'', ustr ''fit'']"
    unfolding p_details_tokens_list_comp
    by (simp add: pair_texts_def build_terms_material)
  show "p_details_tokens L I
        (PList [PDict [(k1, v1)], PInt 7, PStr s, PDict [(k2, v2), (k3, v3)]])
     = (case list_comp (build_terms L)
               [PStr k1, PStr (py_str I v1), PStr k2, PStr (py_str I v2),
                PStr k3, PStr (py_str I v3)] of
          Inl e \<Rightarrow> Inl e
        | Inr tss \<Rightarrow> Inr (concat tss))"
    unfolding p_details_tokens_list_comp by (simp add: pair_texts_def)
  show "p_details_tokens L I PNone = Inr []"
    unfolding p_details_tokens_list_comp by (simp add: pair_texts_def)
  show "p_details_tokens L I (PStr s) = Inr []"
    unfolding p_details_tokens_list_comp by (simp add: pair_texts_def)
qed

text \<open>
  C6.  The brand is the NFKC form of the raw brand, lowercased and stripped, and nothing
  else is done to it; a raw brand that is not a string, or whose result is empty, gives
  \<open>unknown\<close>.  This is the value \<open>preprocess_row\<close> stores under \<open>brand\<close> in the record it
  returns.  \<open>H&M\<close> becomes \<open>h&m\<close>, and on the ASCII libraries every character that the facet
  normalizer would turn into a space (the class \<open>_PUNCT\<close>: ampersands, periods, ...) is
  still in the brand, in order.
\<close>

theorem brand_normalizer:
  "brand L (PStr s) =
     (if str_strip L (str_lower L (nfkc L s)) = [] then ustr ''unknown''
      else str_strip L (str_lower L (nfkc L s)))
   \<and> (\<not> is_str v \<longrightarrow> brand L v = ustr ''unknown'')
   \<and> (preprocess_row L I doc = Inr r \<longrightarrow>
        map_of r (ustr ''brand'')
          = Some (PStr (brand L (get doc (ustr ''brand'') (PStr [])))))
   \<and> brand cpython_ascii (PStr (ustr ''H&M'')) = ustr ''h&m''
   \<and> (str_strip cpython_ascii (ascii_lower t) \<noteq> [] \<longrightarrow>
        filter (PUNCT cpython_ascii) (brand cpython_ascii (PStr t))
          = filter (PUNCT cpython_ascii) t)"
proof (intro conjI impI)
  show "brand L (PStr s) =
     (if str_strip L (str_lower L (nfkc L s)) = [] then ustr ''unknown''
      else str_strip L (str_lower L (nfkc L s)))"
    by (simp add: brand_def Let_def)
  show "brand L v = ustr ''unknown''" if "\<not> is_str v"
    using that by (cases v) (simp_all add: brand_def)
  show "map_of r (ustr ''brand'')
          = Some (PStr (brand L (get doc (ustr ''brand'') (PStr []))))"
    if "preprocess_row L I doc = Inr r"
    using that by (rule field_brand)
  show "brand cpython_ascii (PStr (ustr ''H&M'')) = ustr ''h&m''"
    by (rule brand_HM)
  show "filter (PUNCT cpython_ascii) (brand cpython_ascii (PStr t))
          = filter (PUNCT cpython_ascii) t"
    if "str_strip cpython_ascii (ascii_lower t) \<noteq> []"
    using that by (rule brand_keeps_punct)
qed

theorem brand_normalizer_witness:
  "\<not> is_str PNone \<and> brand cpython_ascii PNone = ustr ''unknown''
   \<and> brand cpython_ascii (PStr (ustr ''   '')) = ustr ''unknown''
   \<and> (\<forall>I. field (preprocess_row cpython_ascii I []) (ustr ''brand'')
             = Some (PStr (ustr ''unknown'')))
   \<and> str_strip cpython_ascii (ascii_lower (ustr '' U.S. Polo '')) \<noteq> []
   \<and> filter (PUNCT cpython_ascii) (brand cpython_ascii (PStr (ustr '' U.S. Polo '')))
       = filter (PUNCT cpython_ascii) (ustr '' U.S. Polo '')
   \<and> filter (PUNCT cpython_ascii) (ustr '' U.S. Polo '') = ustr ''..''"
proof -
  have a: "\<not> is_str PNone" by simp
  have b: "str_strip cpython_ascii (ascii_lower (ustr '' U.S. Polo '')) \<noteq> []"
    by (simp add: cpython_ascii_def str_strip_def ascii_lower_def ascii_isspace_def ustr_def)
  have c: "get [] (ustr ''brand'') (PStr []) = PStr []"
    by (simp add: get_def)
  have d: "str_strip cpython_ascii (str_lower cpython_ascii (nfkc cpython_ascii [])) = []"
    by (simp add: cpython_ascii_def str_strip_def ascii_lower_def)
  have e: "str_strip cpython_ascii
             (str_lower cpython_ascii (nfkc cpython_ascii (ustr ''   ''))) = []"
    by (simp add: cpython_ascii_def str_strip_def ascii_lower_def ascii_isspace_def ustr_def)
  have f: "filter (PUNCT cpython_ascii) (ustr '' U.S. Polo '') = ustr ''..''"
    by (simp add: PUNCT_def cpython_ascii_def ascii_isword_def ascii_isspace_def
        ascii_isdigit_def ustr_def)
  have g: "field (preprocess_row cpython_ascii I []) (ustr ''brand'')
             = Some (PStr (ustr ''unknown''))" for I
  proof -
    obtain r where r: "preprocess_row cpython_ascii I [] = Inr r"
      using preprocess_row_returns_ascii [of "[]" I] by auto
    with brand_normalizer [of cpython_ascii "[]" PNone I "[]" r "[]"] c d
    show ?thesis by (simp add: field_def)
  qed
  from brand_normalizer [of cpython_ascii "ustr ''   ''" PNone _ "[]" _ "ustr '' U.S. Polo ''"]
    a b e f g
  show ?thesis by simp
qed

text \<open>
  C7.  The facet normalizer is idempotent.  Whether it is depends on the Unicode library,
  and only through the three facts of \<open>unicode_facts\<close>, which are about \<open>unicodedata\<close>, \<open>str.lower\<close>
  and the classes \<open>\s\<close> and \<open>\w\<close> and do not mention the code: for every library with these
  facts and every string, normalizing the output again returns it.  The ASCII libraries
  have the three facts, so on them idempotence holds for every string; they agree with
  CPython on ASCII strings.
\<close>

theorem p_norm_idempotent:
  "(unicode_facts L \<longrightarrow> p_norm L (PStr (p_norm L (PStr s))) = p_norm L (PStr s))
   \<and> unicode_facts cpython_ascii
   \<and> p_norm cpython_ascii (PStr (p_norm cpython_ascii (PStr s')))
       = p_norm cpython_ascii (PStr s')"
proof (intro conjI impI)
  assume "unicode_facts L"
  then show "p_norm L (PStr (p_norm L (PStr s))) = p_norm L (PStr s)"
    by (rule p_norm_idem)
next
  show "unicode_facts cpython_ascii"
    by (rule unicode_facts_ascii)
next
  show "p_norm cpython_ascii (PStr (p_norm cpython_ascii (PStr s')))
       = p_norm cpython_ascii (PStr s')"
    using unicode_facts_ascii by (rule p_norm_idem)
qed

theorem p_norm_idempotent_witness:
  "unicode_facts cpython_ascii
   \<and> p_norm cpython_ascii (PStr (ustr ''  Men's  & Women's -- Clothing_1!! ''))
       = ustr ''men s women s clothing_1''
   \<and> p_norm cpython_ascii (PStr (ustr ''men s women s clothing_1''))
       = ustr ''men s women s clothing_1''"
proof -
  from p_norm_idempotent [of cpython_ascii "ustr ''  Men's  & Women's -- Clothing_1!! ''" "[]"]
  have "p_norm cpython_ascii
          (PStr (p_norm cpython_ascii (PStr (ustr ''  Men's  & Women's -- Clothing_1!! ''))))
        = p_norm cpython_ascii (PStr (ustr ''  Men's  & Women's -- Clothing_1!! ''))"
    using unicode_facts_ascii by blast
  then show ?thesis
    unfolding p_norm_example using unicode_facts_ascii by simp
qed

text \<open>
  C8.  For every input that is not a string (\<open>None\<close> included), \<open>build_terms\<close> returns the
  empty sequence: it returns, and raises nothing, whatever the libraries do.
\<close>

theorem build_terms_non_string:
  "\<not> is_str x \<Longrightarrow> build_terms L x = Inr []"
  by (cases x) (simp_all add: build_terms_def)

theorem build_terms_non_string_witness:
  "\<not> is_str PNone \<and> build_terms cpython_ascii PNone = Inr []
   \<and> \<not> is_str (PInt 42) \<and> build_terms cpython_ascii (PInt 42) = Inr []"
  using build_terms_non_string [of PNone cpython_ascii]
    build_terms_non_string [of "PInt 42" cpython_ascii]
  by simp

text \<open>
  C9.  \<open>out_of_stock\<close> is the Python truth value of the raw field, \<open>False\<close> standing in for
  a missing key.  So in the record \<open>preprocess_row\<close> returns every non-empty string gives
  \<open>True\<close>, the string \<open>false\<close> included, and a missing key, \<open>None\<close>, \<open>0\<close> and the empty string give
  \<open>False\<close>.
\<close>

theorem out_of_stock_truthiness:
  "(preprocess_row L I doc = Inr r \<longrightarrow>
      map_of r (ustr ''out_of_stock'')
        = Some (PBool (py_bool (get doc (ustr ''out_of_stock'') (PBool False)))))
   \<and> (preprocess_row L I doc = Inr r
        \<and> map_of doc (ustr ''out_of_stock'') = Some (PStr s) \<and> s \<noteq> [] \<longrightarrow>
        map_of r (ustr ''out_of_stock'') = Some (PBool True))
   \<and> (preprocess_row L I ((ustr ''out_of_stock'', PStr (ustr ''false'')) # doc) = Inr r' \<longrightarrow>
        map_of r' (ustr ''out_of_stock'') = Some (PBool True))
   \<and> (preprocess_row L I doc = Inr r
        \<and> (map_of doc (ustr ''out_of_stock'') = None
           \<or> map_of doc (ustr ''out_of_stock'') = Some PNone
           \<or> map_of doc (ustr ''out_of_stock'') = Some (PInt 0)
           \<or> map_of doc (ustr ''out_of_stock'') = Some (PStr [])) \<longrightarrow>
        map_of r (ustr ''out_of_stock'') = Some (PBool False))"
  using field_out_of_stock [of L I doc r]
    field_out_of_stock [of L I "(ustr ''out_of_stock'', PStr (ustr ''false'')) # doc" r']
  by (auto simp: get_def ustr_Nil_iff)

theorem out_of_stock_truthiness_witness:
  "\<forall>I.
     map_of [(ustr ''pid'', PStr (ustr ''P1'')), (ustr ''out_of_stock'', PStr (ustr ''no''))]
       (ustr ''out_of_stock'') = Some (PStr (ustr ''no'')) \<and> ustr ''no'' \<noteq> []
     \<and> field (preprocess_row cpython_ascii I
          [(ustr ''pid'', PStr (ustr ''P1'')), (ustr ''out_of_stock'', PStr (ustr ''no''))])
          (ustr ''out_of_stock'') = Some (PBool True)
     \<and> map_of [(ustr ''pid'', PStr (ustr ''P1''))] (ustr ''out_of_stock'') = None
     \<and> field (preprocess_row cpython_ascii I [(ustr ''pid'', PStr (ustr ''P1''))])
          (ustr ''out_of_stock'') = Some (PBool False)"
proof
  fix I
  let ?d1 = "[(ustr ''pid'', PStr (ustr ''P1'')), (ustr ''out_of_stock'', PStr (ustr ''no''))]"
  let ?d2 = "[(ustr ''pid'', PStr (ustr ''P1''))]"
  have a: "map_of ?d1 (ustr ''out_of_stock'') = Some (PStr (ustr ''no''))" "ustr ''no'' \<noteq> []"
    by (simp_all add: ustr_def)
  have b: "map_of ?d2 (ustr ''out_of_stock'') = None"
    by (simp add: ustr_def)
  obtain r1 where r1: "preprocess_row cpython_ascii I ?d1 = Inr r1"
    using preprocess_row_returns_ascii [of ?d1 I] by (auto simp: ustr_eq_iff)
  obtain r2 where r2: "preprocess_row cpython_ascii I ?d2 = Inr r2"
    using preprocess_row_returns_ascii [of ?d2 I] by (auto simp: ustr_eq_iff)
  have "map_of r1 (ustr ''out_of_stock'') = Some (PBool True)"
    using out_of_stock_truthiness [of cpython_ascii I ?d1 r1 "ustr ''no''",
        THEN conjunct2, THEN conjunct1] r1 a
    by blast
  then have c: "field (preprocess_row cpython_ascii I ?d1) (ustr ''out_of_stock'')
             = Some (PBool True)"
    unfolding r1 by (simp add: field_def)
  have "map_of r2 (ustr ''out_of_stock'') = Some (PBool False)"
    using out_of_stock_truthiness [of cpython_ascii I ?d2 r2 "[]",
        THEN conjunct2, THEN conjunct2, THEN conjunct2] r2 b
    by blast
  then have d: "field (preprocess_row cpython_ascii I ?d2) (ustr ''out_of_stock'')
             = Some (PBool False)"
    unfolding r2 by (simp add: field_def)
  from a b c d
  show "map_of ?d1 (ustr ''out_of_stock'') = Some (PStr (ustr ''no'')) \<and> ustr ''no'' \<noteq> []
     \<and> field (preprocess_row cpython_ascii I ?d1) (ustr ''out_of_stock'') = Some (PBool True)
     \<and> map_of ?d2 (ustr ''out_of_stock'') = None
     \<and> field (preprocess_row cpython_ascii I ?d2) (ustr ''out_of_stock'') = Some (PBool False)"
    by blast
qed

text \<open>
  C10.  On \<open>1,299\<close> the two parsers read different numbers: \<open>_num\<close> drops the comma and finds
  \<open>1299\<close>; \<open>_disc\<close> searches the text as it is, finds \<open>1\<close>, and returns 0.01.
\<close>

theorem num_disc_disagree:
  "p_num cpython_ascii I (PStr (ustr ''1,299'')) = Inr (PFloat 1299)
   \<and> p_disc cpython_ascii I (PStr (ustr ''1,299'')) = Inr (PFloat 0.01)
   \<and> re_search_number cpython_ascii (py_str I (PStr (ustr ''1,299''))) = Some (ustr ''1'')
   \<and> re_findall_number cpython_ascii (filter (\<lambda>c. c \<noteq> 44) (py_str I (PStr (ustr ''1,299''))))
        = [ustr ''1299'']"
  by (simp add: p_num_1299 p_disc_1299) (simp add: ustr_def match_number_def)

end
